theory Spec2Isabelle
  imports Main "HOL-Library.Word"
begin

section \<open>zcomp: the compression-stream pools of zram (drivers/block/zram/zcomp.c)\<close>

text \<open>
  The development follows the C file top down: kernel memory and its allocators, the
  backend table, stream allocation, the multi-stream pool, the single-stream pool and
  the facade \<open>zcomp_create\<close>. Streams are shared between the pool and its callers, so
  they live in an explicit store indexed by address; the bookkeeping of a pool is a
  record that is passed and returned.
\<close>

subsection \<open>Kernel memory\<close>

type_synonym addr = nat
type_synonym byte = "8 word"

text \<open>A C pointer that may be NULL or carry an errno (\<open>ERR_PTR\<close>).\<close>

datatype 'a kptr = NULL | ERR_PTR int | PTR 'a

fun IS_ERR_OR_NULL :: "'a kptr \<Rightarrow> bool" where
  "IS_ERR_OR_NULL NULL = True"
| "IS_ERR_OR_NULL (ERR_PTR e) = True"
| "IS_ERR_OR_NULL (PTR p) = False"

text \<open>
  The allocation flags the file uses. A flag word is the set of the flags or-ed together.
\<close>

datatype gfp = GFP_KERNEL | GFP_NOIO | GFP_NORETRY | GFP_NOWARN | GFP_ZERO

text \<open>
  \<open>struct zcomp_strm\<close>: the codec handle and the scratch buffer (the \<open>list\<close> link is
  represented by the position of the stream's address in the idle list).
\<close>

record zcomp_strm =
  tfm :: "addr kptr"
  buffer :: "addr option"

text \<open>What a block handed out by \<open>kmalloc\<close> holds.\<close>

datatype blk = Zcomp_blk | Strm_single_blk | Strm_multi_blk | Zstrm_raw | Zstrm zcomp_strm

text \<open>
  The outcome of one allocation attempt, decided by the environment: granted, refused
  with NULL, or (for the crypto layer) refused with an errno pointer.
\<close>

datatype fate = Grant | Deny | Deny_err int

text \<open>
  Kernel memory: the slab blocks, the codec contexts (each bound to an algorithm name)
  and the page allocations, all by address; \<open>brk\<close> is the next unused address,
  \<open>fates\<close> the outcomes of the allocation attempts to come (an exhausted list refuses)
  and \<open>dirt\<close> the byte found in pages that were not asked to be zeroed.
\<close>

record kmem =
  slab :: "addr \<rightharpoonup> blk"
  tfms :: "addr \<rightharpoonup> string"
  pages :: "addr \<rightharpoonup> byte list"
  brk :: addr
  fates :: "fate list"
  dirt :: byte

text \<open>
  Modelled from the spec: the macros \<open>PAGE_SIZE\<close>, \<open>ENOMEM\<close> and \<open>EINVAL\<close> come from
  kernel headers that are not part of the file. The spec's BlockSize is one page, which
  is 4096 bytes on this platform; the two errno numbers are those of errno-base.h.
\<close>

definition PAGE_SIZE :: nat where
  "PAGE_SIZE = 4096"

definition ENOMEM :: int where
  "ENOMEM = 12"

definition EINVAL :: int where
  "EINVAL = 22"

text \<open>
  Modelled from the spec: the allocators \<open>kmalloc\<close>, \<open>kfree\<close>, \<open>crypto_alloc_comp\<close> and
  \<open>crypto_free_comp\<close> are kernel code that is not part of the file. An allocation takes
  the next outcome; when granted it hands out the next unused address, and when refused
  it returns NULL (the crypto layer may return an errno pointer instead). Freeing NULL
  or an errno pointer does nothing.
\<close>

definition next_fate :: "kmem \<Rightarrow> fate \<times> kmem" where
  "next_fate s = (case fates s of [] \<Rightarrow> (Deny, s) | f # fs \<Rightarrow> (f, s\<lparr>fates := fs\<rparr>))"

definition kmalloc :: "blk \<Rightarrow> kmem \<Rightarrow> addr option \<times> kmem" where
  "kmalloc b s =
     (case next_fate s of
        (Grant, s') \<Rightarrow> (Some (brk s'), s'\<lparr>slab := (slab s')(brk s' \<mapsto> b), brk := Suc (brk s')\<rparr>)
      | (_, s') \<Rightarrow> (None, s'))"

definition kfree :: "addr option \<Rightarrow> kmem \<Rightarrow> kmem" where
  "kfree p s = (case p of None \<Rightarrow> s | Some a \<Rightarrow> s\<lparr>slab := (slab s)(a := None)\<rparr>)"

definition crypto_alloc_comp :: "string \<Rightarrow> kmem \<Rightarrow> addr kptr \<times> kmem" where
  "crypto_alloc_comp alg s =
     (case next_fate s of
        (Grant, s') \<Rightarrow> (PTR (brk s'), s'\<lparr>tfms := (tfms s')(brk s' \<mapsto> alg), brk := Suc (brk s')\<rparr>)
      | (Deny, s') \<Rightarrow> (NULL, s')
      | (Deny_err e, s') \<Rightarrow> (ERR_PTR e, s'))"

definition crypto_free_comp :: "addr kptr \<Rightarrow> kmem \<Rightarrow> kmem" where
  "crypto_free_comp t s = (case t of PTR a \<Rightarrow> s\<lparr>tfms := (tfms s)(a := None)\<rparr> | _ \<Rightarrow> s)"

text \<open>
  Modelled from the spec: \<open>__get_free_pages\<close> and \<open>free_pages\<close> are kernel code that
  is not part of the file. \<open>__get_free_pages(flags, order)\<close> hands out \<open>2 ^ order\<close>
  pages, zeroed when the flags contain \<open>__GFP_ZERO\<close>; \<open>free_pages\<close> ignores the
  address 0.
\<close>

definition get_free_pages :: "gfp set \<Rightarrow> nat \<Rightarrow> kmem \<Rightarrow> addr option \<times> kmem" where
  "get_free_pages flags order s =
     (case next_fate s of
        (Grant, s') \<Rightarrow>
          (Some (brk s'),
           s'\<lparr>pages := (pages s')(brk s' \<mapsto>
                 replicate (2 ^ order * PAGE_SIZE) (if GFP_ZERO \<in> flags then 0 else dirt s')),
              brk := Suc (brk s')\<rparr>)
      | (_, s') \<Rightarrow> (None, s'))"

definition free_pages :: "addr option \<Rightarrow> nat \<Rightarrow> kmem \<Rightarrow> kmem" where
  "free_pages p order s = (case p of None \<Rightarrow> s | Some a \<Rightarrow> s\<lparr>pages := (pages s)(a := None)\<rparr>)"

text \<open>Every address from \<open>brk\<close> on is unused.\<close>

definition kmem_ok :: "kmem \<Rightarrow> bool" where
  "kmem_ok s \<longleftrightarrow> (\<forall>a. brk s \<le> a \<longrightarrow> slab s a = None \<and> tfms s a = None \<and> pages s a = None)"

text \<open>Two memories hold the same allocations.\<close>

definition same_allocs :: "kmem \<Rightarrow> kmem \<Rightarrow> bool" where
  "same_allocs s s' \<longleftrightarrow> slab s' = slab s \<and> tfms s' = tfms s \<and> pages s' = pages s"

subsection \<open>The backend table\<close>

text \<open>
  \<open>backends[]\<close>; the entry \<open>lz4\<close> is present when the kernel is configured with
  \<open>CONFIG_ZRAM_LZ4_COMPRESS\<close>, which is the parameter \<open>lz4\<close>. The terminating NULL is the
  end of the list. A C string is the list of its characters, without the final NUL.
\<close>

definition backends :: "bool \<Rightarrow> string list" where
  "backends lz4 = ''lzo'' # (if lz4 then [''lz4''] else [])"

definition newline :: char where
  "newline = CHR 0x0A"

text \<open>
  Modelled from the spec: \<open>sysfs_streq\<close> (lib/string.c) is not part of the file. It
  treats two strings as equal when they are identical or differ only by one trailing
  newline on either side; the equations follow the kernel's loop, which walks both strings
  while they agree and then looks at what is left.
\<close>

fun sysfs_streq :: "string \<Rightarrow> string \<Rightarrow> bool" where
  "sysfs_streq [] [] = True"
| "sysfs_streq [] (b # s2) = (b = newline \<and> s2 = [])"
| "sysfs_streq (a # s1) [] = (a = newline \<and> s1 = [])"
| "sysfs_streq (a # s1) (b # s2) = (if a = b then sysfs_streq s1 s2 else False)"

fun find_backend_loop :: "string \<Rightarrow> string list \<Rightarrow> string option" where
  "find_backend_loop compress [] = None"
| "find_backend_loop compress (b # bs) =
     (if sysfs_streq compress b then Some b else find_backend_loop compress bs)"

definition find_backend :: "bool \<Rightarrow> string \<Rightarrow> string option" where
  "find_backend lz4 compress = find_backend_loop compress (backends lz4)"

definition zcomp_available_algorithm :: "bool \<Rightarrow> string \<Rightarrow> bool" where
  "zcomp_available_algorithm lz4 nm \<longleftrightarrow> find_backend lz4 nm \<noteq> None"

text \<open>
  Modelled from the spec: \<open>scnprintf\<close> (lib/vsprintf.c) is not part of the file.
  \<open>scnprintf(buf, size, ...)\<close> stores at most \<open>size - 1\<close> characters of the formatted text
  and returns how many it stored; a size of 0, or one that wrapped below 0, stores
  nothing. The function below gives the characters stored.
\<close>

definition scnprintf :: "int \<Rightarrow> string \<Rightarrow> string" where
  "scnprintf sz txt = (if sz \<le> 0 then [] else take (nat (sz - 1)) txt)"

fun available_show_loop :: "string \<Rightarrow> string list \<Rightarrow> string \<Rightarrow> string" where
  "available_show_loop nm [] buf = buf"
| "available_show_loop nm (b # bs) buf =
     available_show_loop nm bs
       (if nm = b
        then buf @ scnprintf (int PAGE_SIZE - int (length buf) - 2) (''['' @ b @ ''] '')
        else buf @ scnprintf (int PAGE_SIZE - int (length buf) - 2) (b @ '' ''))"

text \<open>The text left in \<open>buf\<close>; the C function returns its length \<open>sz\<close>.\<close>

definition zcomp_available_show :: "bool \<Rightarrow> string \<Rightarrow> string" where
  "zcomp_available_show lz4 nm =
     (let buf = available_show_loop nm (backends lz4) []
      in buf @ scnprintf (int PAGE_SIZE - int (length buf)) [newline])"

subsection \<open>Streams\<close>

text \<open>
  \<open>zcomp_strm_free\<close> reads the two pointers of the stream at \<open>z\<close>; an address that holds
  no stream is outside the function's contract and leaves memory as it is.
\<close>

definition zcomp_strm_free :: "addr \<Rightarrow> kmem \<Rightarrow> kmem" where
  "zcomp_strm_free z s =
     (case slab s z of
        Some (Zstrm zstrm) \<Rightarrow>
          (let s1 = (if \<not> IS_ERR_OR_NULL (tfm zstrm) then crypto_free_comp (tfm zstrm) s else s);
               s2 = free_pages (buffer zstrm) 1 s1
           in kfree (Some z) s2)
      | _ \<Rightarrow> s)"

text \<open>
  \<open>zcomp_strm_alloc(comp, flags)\<close> uses \<open>comp->name\<close> only. The two stores into the
  fresh block are made together, after both allocations.
\<close>

definition zcomp_strm_alloc :: "string \<Rightarrow> gfp set \<Rightarrow> kmem \<Rightarrow> addr option \<times> kmem" where
  "zcomp_strm_alloc cname flags s =
     (case kmalloc Zstrm_raw s of
        (None, s1) \<Rightarrow> (None, s1)
      | (Some z, s1) \<Rightarrow>
          (case crypto_alloc_comp cname s1 of
             (t, s2) \<Rightarrow>
               (case get_free_pages (flags \<union> {GFP_ZERO}) 1 s2 of
                  (b, s3) \<Rightarrow>
                    (let s4 = s3\<lparr>slab := (slab s3)(z \<mapsto> Zstrm \<lparr>tfm = t, buffer = b\<rparr>)\<rparr>
                     in if IS_ERR_OR_NULL t \<or> b = None
                        then (None, zcomp_strm_free z s4)
                        else (Some z, s4)))))"

subsection \<open>The multi-stream pool\<close>

text \<open>
  \<open>struct zcomp_strm_multi\<close>. The spin lock makes each locked section one atomic step;
  the wait queue is the set of callers asleep in \<open>wait_event\<close>. The two counters are C
  \<open>int\<close>s: every increment is guarded by \<open>avail_strm < max_strm\<close> and every decrement
  by \<open>avail_strm > max_strm\<close> (or undoes the caller's own increment), so they are
  modelled as unbounded integers.
\<close>

record zcomp_strm_multi =
  max_strm :: int
  avail_strm :: int
  idle_strm :: "addr list"

text \<open>
  Where a caller stands: outside the pool, at one of the points of
  \<open>zcomp_strm_multi_find\<close> between which other callers may run, or back from it with
  the returned pointer (\<open>None\<close> is NULL), which the caller owns until it releases it.
  \<^item> \<open>Find_top\<close>: about to take the lock at the top of the loop;
  \<^item> \<open>Find_alloc\<close>: slot reserved, lock dropped, about to call \<open>zcomp_strm_alloc\<close>;
  \<^item> \<open>Find_unreserve\<close>: the allocation failed, about to retake the lock;
  \<^item> \<open>Find_wait\<close>: in \<open>wait_event\<close>, about to test the condition;
  \<^item> \<open>Find_sleep\<close>: in \<open>wait_event\<close>, asleep until a \<open>wake_up\<close>.
\<close>

datatype pc = Idle | Find_top | Find_alloc | Find_unreserve | Find_wait | Find_sleep
  | Got "addr option"

fun zcomp_strm_multi_find :: "string \<Rightarrow> pc \<Rightarrow> zcomp_strm_multi \<times> kmem \<Rightarrow> pc \<times> zcomp_strm_multi \<times> kmem" where
  "zcomp_strm_multi_find cname Idle (zs, m) = (Find_top, zs, m)"
| "zcomp_strm_multi_find cname Find_top (zs, m) =
     (case idle_strm zs of
        z # rest \<Rightarrow> (Got (Some z), zs\<lparr>idle_strm := rest\<rparr>, m)
      | [] \<Rightarrow>
          if avail_strm zs \<ge> max_strm zs then (Find_wait, zs, m)
          else (Find_alloc, zs\<lparr>avail_strm := avail_strm zs + 1\<rparr>, m))"
| "zcomp_strm_multi_find cname Find_alloc (zs, m) =
     (case zcomp_strm_alloc cname {GFP_NOIO, GFP_NORETRY, GFP_NOWARN} m of
        (zstrm, m') \<Rightarrow>
          if zstrm = None then (Find_unreserve, zs, m') else (Got zstrm, zs, m'))"
| "zcomp_strm_multi_find cname Find_unreserve (zs, m) =
     (Find_wait, zs\<lparr>avail_strm := avail_strm zs - 1\<rparr>, m)"
| "zcomp_strm_multi_find cname Find_wait (zs, m) =
     (if idle_strm zs \<noteq> [] then (Find_top, zs, m) else (Find_sleep, zs, m))"
| "zcomp_strm_multi_find cname Find_sleep (zs, m) = (Find_sleep, zs, m)"
| "zcomp_strm_multi_find cname (Got r) (zs, m) = (Got r, zs, m)"

text \<open>The first component tells whether \<open>wake_up\<close> was called.\<close>

definition zcomp_strm_multi_release :: "addr \<Rightarrow> zcomp_strm_multi \<times> kmem \<Rightarrow> bool \<times> zcomp_strm_multi \<times> kmem" where
  "zcomp_strm_multi_release zstrm \<sigma> =
     (case \<sigma> of (zs, m) \<Rightarrow>
        if avail_strm zs \<le> max_strm zs
        then (True, zs\<lparr>idle_strm := zstrm # idle_strm zs\<rparr>, m)
        else (False, zs\<lparr>avail_strm := avail_strm zs - 1\<rparr>, zcomp_strm_free zstrm m))"

function set_max_streams_loop :: "int \<Rightarrow> zcomp_strm_multi \<Rightarrow> kmem \<Rightarrow> zcomp_strm_multi \<times> kmem" where
  "set_max_streams_loop num_strm zs m =
     (if avail_strm zs > num_strm \<and> idle_strm zs \<noteq> []
      then set_max_streams_loop num_strm
             (zs\<lparr>idle_strm := tl (idle_strm zs), avail_strm := avail_strm zs - 1\<rparr>)
             (zcomp_strm_free (hd (idle_strm zs)) m)
      else (zs, m))"
  by pat_completeness auto
termination
  by (relation "measure (\<lambda>(n, zs, m). length (idle_strm zs))") auto

definition zcomp_strm_multi_set_max_streams :: "int \<Rightarrow> zcomp_strm_multi \<times> kmem \<Rightarrow> bool \<times> zcomp_strm_multi \<times> kmem" where
  "zcomp_strm_multi_set_max_streams num_strm \<sigma> =
     (case \<sigma> of (zs, m) \<Rightarrow> (True, set_max_streams_loop num_strm (zs\<lparr>max_strm := num_strm\<rparr>) m))"

text \<open>
  The pool structure is a slab block of its own; the result is the error code, or the
  address and the contents of the structure stored in \<open>comp->stream\<close>.
\<close>

definition zcomp_strm_multi_create :: "string \<Rightarrow> int \<Rightarrow> kmem \<Rightarrow> (int + addr \<times> zcomp_strm_multi) \<times> kmem" where
  "zcomp_strm_multi_create cname n m =
     (case kmalloc Strm_multi_blk m of
        (None, m1) \<Rightarrow> (Inl (- ENOMEM), m1)
      | (Some p, m1) \<Rightarrow>
          (let zs = \<lparr>max_strm = n, avail_strm = 1, idle_strm = []\<rparr>
           in case zcomp_strm_alloc cname {GFP_KERNEL} m1 of
                (None, m2) \<Rightarrow> (Inl (- ENOMEM), kfree (Some p) m2)
              | (Some zstrm, m2) \<Rightarrow> (Inr (p, zs\<lparr>idle_strm := zstrm # idle_strm zs\<rparr>), m2)))"

subsection \<open>The single-stream pool\<close>

record zcomp_strm_single =
  zstrm :: addr
  strm_lock :: bool

definition zcomp_strm_single_set_max_streams :: "int \<Rightarrow> zcomp_strm_single \<times> kmem \<Rightarrow> bool \<times> zcomp_strm_single \<times> kmem" where
  "zcomp_strm_single_set_max_streams num_strm \<sigma> = (case \<sigma> of (zs, m) \<Rightarrow> (False, zs, m))"

definition zcomp_strm_single_create :: "string \<Rightarrow> kmem \<Rightarrow> (int + addr \<times> zcomp_strm_single) \<times> kmem" where
  "zcomp_strm_single_create cname m =
     (case kmalloc Strm_single_blk m of
        (None, m1) \<Rightarrow> (Inl (- ENOMEM), m1)
      | (Some p, m1) \<Rightarrow>
          (case zcomp_strm_alloc cname {GFP_KERNEL} m1 of
             (None, m2) \<Rightarrow> (Inl (- ENOMEM), kfree (Some p) m2)
           | (Some z, m2) \<Rightarrow> (Inr (p, \<lparr>zstrm = z, strm_lock = False\<rparr>), m2)))"

subsection \<open>The facade\<close>

text \<open>
  \<open>struct zcomp\<close>. The four function pointers are set together with \<open>stream\<close> by the
  two create functions and never change, so the constructor of the \<open>stream\<close> field
  stands for them: each facade call dispatches on it.
\<close>

datatype strm_backend = Single addr zcomp_strm_single | Multi addr zcomp_strm_multi

record zcomp =
  name :: string
  stream :: strm_backend

definition zcomp_set_max_streams :: "zcomp \<Rightarrow> int \<Rightarrow> kmem \<Rightarrow> bool \<times> zcomp \<times> kmem" where
  "zcomp_set_max_streams c num_strm m =
     (case stream c of
        Single p zs \<Rightarrow>
          (case zcomp_strm_single_set_max_streams num_strm (zs, m) of
             (r, zs', m') \<Rightarrow> (r, c\<lparr>stream := Single p zs'\<rparr>, m'))
      | Multi p zs \<Rightarrow>
          (case zcomp_strm_multi_set_max_streams num_strm (zs, m) of
             (r, zs', m') \<Rightarrow> (r, c\<lparr>stream := Multi p zs'\<rparr>, m')))"

text \<open>The result is the pointer returned: an \<open>ERR_PTR\<close>, or the address of the new \<open>zcomp\<close> with its contents.\<close>

definition zcomp_create :: "bool \<Rightarrow> string \<Rightarrow> int \<Rightarrow> kmem \<Rightarrow> (addr \<times> zcomp) kptr \<times> kmem" where
  "zcomp_create lz4 compress n m =
     (case find_backend lz4 compress of
        None \<Rightarrow> (ERR_PTR (- EINVAL), m)
      | Some backend \<Rightarrow>
          (case kmalloc Zcomp_blk m of
             (None, m1) \<Rightarrow> (ERR_PTR (- ENOMEM), m1)
           | (Some c, m1) \<Rightarrow>
               (if n > 1
                then (case zcomp_strm_multi_create backend n m1 of
                        (Inl error, m2) \<Rightarrow> (ERR_PTR error, kfree (Some c) m2)
                      | (Inr (p, zs), m2) \<Rightarrow> (PTR (c, \<lparr>name = backend, stream = Multi p zs\<rparr>), m2))
                else (case zcomp_strm_single_create backend m1 of
                        (Inl error, m2) \<Rightarrow> (ERR_PTR error, kfree (Some c) m2)
                      | (Inr (p, zs), m2) \<Rightarrow> (PTR (c, \<lparr>name = backend, stream = Single p zs\<rparr>), m2)))))"

subsection \<open>Callers sharing one pool\<close>

text \<open>
  A multi-stream \<open>zcomp\<close> used by a fixed number of callers. Each event is one atomic
  step of one caller: \<open>Find t\<close> lets caller \<open>t\<close> enter \<open>zcomp_strm_multi_find\<close> or
  take its next step there, \<open>Release t\<close> lets it give back the stream it owns, and
  \<open>Set_max n\<close> is a call of the resize function. An event that does not apply (a caller
  out of range, a release by a caller that owns nothing) changes nothing. \<open>wake_up\<close>
  makes every sleeper test its condition again.
\<close>

record sys =
  mem :: kmem
  cname :: string
  pool :: zcomp_strm_multi
  pcs :: "pc list"

datatype event = Find nat | Release nat | Set_max int

definition wake_up :: "pc list \<Rightarrow> pc list" where
  "wake_up ps = map (\<lambda>p. if p = Find_sleep then Find_wait else p) ps"

fun exec1 :: "event \<Rightarrow> sys \<Rightarrow> sys" where
  "exec1 (Find t) s =
     (if t < length (pcs s)
      then (case zcomp_strm_multi_find (cname s) (pcs s ! t) (pool s, mem s) of
              (p', zs', m') \<Rightarrow> s\<lparr>mem := m', pool := zs', pcs := (pcs s)[t := p']\<rparr>)
      else s)"
| "exec1 (Release t) s =
     (if t < length (pcs s)
      then (case pcs s ! t of
              Got (Some z) \<Rightarrow>
                (case zcomp_strm_multi_release z (pool s, mem s) of
                   (w, zs', m') \<Rightarrow>
                     s\<lparr>mem := m', pool := zs',
                       pcs := (if w then wake_up (pcs s) else pcs s)[t := Idle]\<rparr>)
            | _ \<Rightarrow> s)
      else s)"
| "exec1 (Set_max n) s =
     (case zcomp_strm_multi_set_max_streams n (pool s, mem s) of
        (r, zs', m') \<Rightarrow> s\<lparr>mem := m', pool := zs'\<rparr>)"

definition exec :: "event list \<Rightarrow> sys \<Rightarrow> sys" where
  "exec evs s = fold exec1 evs s"

text \<open>A pool straight out of \<open>zcomp_create\<close>, with \<open>k\<close> callers that have not called yet.\<close>

definition boot :: "bool \<Rightarrow> string \<Rightarrow> int \<Rightarrow> nat \<Rightarrow> kmem \<Rightarrow> sys option" where
  "boot lz4 compress n k m =
     (case zcomp_create lz4 compress n m of
        (PTR (c, cmp), m') \<Rightarrow>
          (case stream cmp of
             Multi p zs \<Rightarrow> Some \<lparr>mem = m', cname = name cmp, pool = zs, pcs = replicate k Idle\<rparr>
           | Single p zs \<Rightarrow> None)
      | _ \<Rightarrow> None)"

subsection \<open>What is observed\<close>

text \<open>The address holds a stream structure.\<close>

definition is_strm :: "kmem \<Rightarrow> addr \<Rightarrow> bool" where
  "is_strm m z = (case slab m z of Some (Zstrm st) \<Rightarrow> True | _ \<Rightarrow> False)"

text \<open>The contents of the scratch buffer of the stream at an address.\<close>

definition strm_buffer :: "kmem \<Rightarrow> addr \<Rightarrow> byte list option" where
  "strm_buffer m z =
     (case slab m z of
        Some (Zstrm st) \<Rightarrow> (case buffer st of Some b \<Rightarrow> pages m b | None \<Rightarrow> None)
      | _ \<Rightarrow> None)"

text \<open>The streams the callers own, and the slots of \<open>avail_strm\<close> the callers account for.\<close>

fun holds :: "pc \<Rightarrow> addr list" where
  "holds (Got (Some z)) = [z]"
| "holds p = []"

definition checked_out :: "pc list \<Rightarrow> addr list" where
  "checked_out ps = concat (map holds ps)"

fun slot :: "pc \<Rightarrow> int" where
  "slot (Got r) = 1"
| "slot Find_alloc = 1"
| "slot Find_unreserve = 1"
| "slot p = 0"

text \<open>
  A caller is at rest when it is outside the pool's functions, or has reserved a slot
  and not yet allocated the stream for it.
\<close>

fun at_rest :: "pc \<Rightarrow> bool" where
  "at_rest Idle = True"
| "at_rest (Got r) = True"
| "at_rest Find_alloc = True"
| "at_rest p = False"

definition quiescent :: "sys \<Rightarrow> bool" where
  "quiescent s = list_all at_rest (pcs s)"


text \<open>
  The slots of \<open>avail_strm\<close> that are in use: streams owned by callers and slots
  reserved for growth. A resize lowers the limit below the streams in use when it asks
  for fewer than that; a run has no such resize when none of its resize events does, each
  judged at the state it happens in.
\<close>

definition in_use :: "sys \<Rightarrow> int" where
  "in_use s = sum_list (map slot (pcs s))"

fun lowers :: "event \<Rightarrow> sys \<Rightarrow> bool" where
  "lowers (Set_max n) s = (n < in_use s)"
| "lowers e s = False"

fun no_lowering :: "event list \<Rightarrow> sys \<Rightarrow> bool" where
  "no_lowering [] s = True"
| "no_lowering (e # evs) s = (\<not> lowers e s \<and> no_lowering evs (exec1 e s))"

text \<open>The bookkeeping invariant of a shared pool.\<close>

definition pool_inv :: "sys \<Rightarrow> bool" where
  "pool_inv s \<longleftrightarrow>
     kmem_ok (mem s)
     \<and> distinct (idle_strm (pool s) @ checked_out (pcs s))
     \<and> list_all (is_strm (mem s)) (idle_strm (pool s) @ checked_out (pcs s))
     \<and> Got None \<notin> set (pcs s)
     \<and> avail_strm (pool s) = int (length (idle_strm (pool s))) + sum_list (map slot (pcs s))
     \<and> (avail_strm (pool s) \<le> max_strm (pool s) \<or> idle_strm (pool s) = [])"

subsection \<open>Concrete memories and pools\<close>

text \<open>An empty memory with the given allocation outcomes.\<close>

definition mem0 :: "fate list \<Rightarrow> kmem" where
  "mem0 fs = \<lparr>slab = Map.empty, tfms = Map.empty, pages = Map.empty, brk = 0, fates = fs, dirt = 0xFF\<rparr>"

text \<open>
  Three callers on a pool created with three streams allowed, all allocations granted;
  each caller has acquired a stream.
\<close>

definition full_pool :: "sys option" where
  "full_pool =
     map_option (exec [Find 0, Find 0, Find 1, Find 1, Find 1, Find 2, Find 2, Find 2])
       (boot True ''lzo'' 3 3 (mem0 (replicate 11 Grant)))"


text \<open>
  Two callers on a pool of two; the second caller's allocation is refused, it goes to
  sleep, is woken by the first caller's release and takes the released stream.
\<close>

definition retry_pool :: "sys option" where
  "retry_pool =
     map_option
       (exec [Find 0, Find 0, Find 1, Find 1, Find 1, Find 1, Find 1, Release 0, Find 1, Find 1])
       (boot False ''lzo'' 2 2 (mem0 [Grant, Grant, Grant, Grant, Grant, Deny]))"

section \<open>Memory across allocation and release\<close>

lemmas alloc_defs = zcomp_strm_alloc_def kmalloc_def crypto_alloc_comp_def get_free_pages_def
  next_fate_def zcomp_strm_free_def crypto_free_comp_def free_pages_def kfree_def

lemma zcomp_strm_alloc_Some:
  assumes "zcomp_strm_alloc alg flags s = (Some z, s')"
  shows "z = brk s \<and> brk s' = brk s + 3
    \<and> slab s' = (slab s)(z \<mapsto> Zstrm \<lparr>tfm = PTR (Suc z), buffer = Some (Suc (Suc z))\<rparr>)
    \<and> tfms s' = (tfms s)(Suc z \<mapsto> alg)
    \<and> pages s' = (pages s)(Suc (Suc z) \<mapsto> replicate (2 * PAGE_SIZE) 0)
    \<and> fates s = Grant # Grant # Grant # fates s' \<and> dirt s' = dirt s"
  using assms
  by (auto simp: alloc_defs split: list.splits fate.splits if_splits)

lemma zcomp_strm_alloc_Some_ok:
  assumes "kmem_ok s" "zcomp_strm_alloc alg flags s = (Some z, s')"
  shows "kmem_ok s'"
  using zcomp_strm_alloc_Some[OF assms(2)] assms(1)
  by (auto simp: kmem_ok_def)

lemma zcomp_strm_alloc_None:
  assumes "kmem_ok s" "zcomp_strm_alloc alg flags s = (None, s')"
  shows "same_allocs s s' \<and> kmem_ok s' \<and> brk s \<le> brk s' \<and> dirt s' = dirt s"
  using assms
  by (auto simp: alloc_defs kmem_ok_def same_allocs_def split: list.splits fate.splits if_splits)

text \<open>Streams in memory across allocation and release.\<close>

lemma alloc_Some_strm:
  assumes "kmem_ok m" "zcomp_strm_alloc alg flags m = (Some z, m')"
  shows "is_strm m' z \<and> \<not> is_strm m z \<and> (\<forall>y. is_strm m y \<longrightarrow> is_strm m' y)"
  using zcomp_strm_alloc_Some[OF assms(2)] assms(1)
  by (auto simp: is_strm_def kmem_ok_def)

lemma alloc_None_strm:
  assumes "kmem_ok m" "zcomp_strm_alloc alg flags m = (None, m')"
  shows "is_strm m' = is_strm m"
  using zcomp_strm_alloc_None[OF assms]
  by (auto simp: is_strm_def same_allocs_def fun_eq_iff)

lemma free_strm:
  assumes "is_strm m z"
  shows "slab (zcomp_strm_free z m) = (slab m)(z := None) \<and> brk (zcomp_strm_free z m) = brk m"
  using assms
  by (auto simp: is_strm_def zcomp_strm_free_def crypto_free_comp_def free_pages_def kfree_def
      Let_def split: option.splits blk.splits kptr.splits)

lemma free_kmem_ok:
  assumes "kmem_ok m"
  shows "kmem_ok (zcomp_strm_free z m)"
  using assms
  by (auto simp: kmem_ok_def zcomp_strm_free_def crypto_free_comp_def free_pages_def kfree_def
      Let_def split: option.splits blk.splits kptr.splits)

lemma free_is_strm:
  assumes "is_strm m z"
  shows "is_strm (zcomp_strm_free z m) y \<longleftrightarrow> y \<noteq> z \<and> is_strm m y"
  using free_strm[OF assms] by (auto simp: is_strm_def)

text \<open>Callers' accounts when one caller moves.\<close>

lemma checked_out_append: "checked_out (xs @ ys) = checked_out xs @ checked_out ys"
  by (simp add: checked_out_def)

lemma checked_out_update:
  assumes "t < length ps"
  shows "\<exists>A B. checked_out ps = A @ holds (ps ! t) @ B \<and> checked_out (ps[t := p]) = A @ holds p @ B"
proof -
  have 1: "ps = take t ps @ ps ! t # drop (Suc t) ps"
    using assms by (rule id_take_nth_drop)
  have 2: "ps[t := p] = take t ps @ p # drop (Suc t) ps"
    using assms by (rule upd_conv_take_nth_drop)
  have "checked_out ps = checked_out (take t ps) @ holds (ps ! t) @ checked_out (drop (Suc t) ps)"
    by (subst 1) (simp add: checked_out_def)
  moreover have "checked_out (ps[t := p]) = checked_out (take t ps) @ holds p @ checked_out (drop (Suc t) ps)"
    by (subst 2) (simp add: checked_out_def)
  ultimately show ?thesis by blast
qed

lemma slot_update:
  assumes "t < length ps"
  shows "sum_list (map slot (ps[t := p])) = sum_list (map slot ps) - slot (ps ! t) + slot p"
proof -
  have 1: "ps = take t ps @ ps ! t # drop (Suc t) ps"
    using assms by (rule id_take_nth_drop)
  have 2: "ps[t := p] = take t ps @ p # drop (Suc t) ps"
    using assms by (rule upd_conv_take_nth_drop)
  have "sum_list (map slot ps) = sum_list (map slot (take t ps)) + slot (ps ! t) + sum_list (map slot (drop (Suc t) ps))"
    by (subst 1) simp
  moreover have "sum_list (map slot (ps[t := p])) = sum_list (map slot (take t ps)) + slot p + sum_list (map slot (drop (Suc t) ps))"
    by (subst 2) simp
  ultimately show ?thesis by simp
qed

lemma wake_up_checked_out: "checked_out (wake_up ps) = checked_out ps"
  by (induction ps) (auto simp: checked_out_def wake_up_def)

lemma wake_up_slot: "sum_list (map slot (wake_up ps)) = sum_list (map slot ps)"
  by (induction ps) (auto simp: wake_up_def)

lemma wake_up_length: "length (wake_up ps) = length ps"
  by (simp add: wake_up_def)

lemma wake_up_nth: "t < length ps \<Longrightarrow> wake_up ps ! t = (if ps ! t = Find_sleep then Find_wait else ps ! t)"
  by (simp add: wake_up_def)

lemma wake_up_Got: "Got r \<in> set (wake_up ps) \<longleftrightarrow> Got r \<in> set ps"
  by (auto simp: wake_up_def)

lemma not_in_update: "x \<notin> set ps \<Longrightarrow> x \<noteq> p \<Longrightarrow> x \<notin> set (ps[t := p])"
  using set_update_subset_insert[of ps t p] by auto

section \<open>The bookkeeping invariant is kept by every step\<close>

lemma pool_inv_find:
  assumes inv: "pool_inv s" and t: "t < length (pcs s)"
  shows "pool_inv (exec1 (Find t) s)"
proof -
  obtain A B where co: "\<And>p. checked_out (pcs s) = A @ holds (pcs s ! t) @ B"
      "\<And>p. checked_out ((pcs s)[t := p]) = A @ holds p @ B"
  proof -
    have a: "pcs s = take t (pcs s) @ pcs s ! t # drop (Suc t) (pcs s)"
      using t by (rule id_take_nth_drop)
    have b: "\<And>p. (pcs s)[t := p] = take t (pcs s) @ p # drop (Suc t) (pcs s)"
      using t by (rule upd_conv_take_nth_drop)
    have "checked_out (pcs s) = checked_out (take t (pcs s)) @ holds (pcs s ! t) @ checked_out (drop (Suc t) (pcs s))"
      by (subst a) (simp add: checked_out_def)
    moreover have "\<And>p. checked_out ((pcs s)[t := p]) = checked_out (take t (pcs s)) @ holds p @ checked_out (drop (Suc t) (pcs s))"
      by (subst b) (simp add: checked_out_def)
    ultimately show ?thesis using that by blast
  qed
  note sl = slot_update[OF t]
  have nin: "\<And>p. p \<noteq> Got None \<Longrightarrow> Got None \<notin> set ((pcs s)[t := p])"
    using inv not_in_update[of "Got None" "pcs s"] by (auto simp: pool_inv_def)
  show ?thesis
  proof (cases "pcs s ! t")
    case Idle
    with inv t co sl nin show ?thesis by (auto simp: pool_inv_def)
  next
    case Find_top
    with inv t co sl nin show ?thesis
      by (auto simp: pool_inv_def split: list.splits)
  next
    case Find_alloc
    obtain r m' where al: "zcomp_strm_alloc (cname s) {GFP_NOIO, GFP_NORETRY, GFP_NOWARN} (mem s) = (r, m')"
      by (cases "zcomp_strm_alloc (cname s) {GFP_NOIO, GFP_NORETRY, GFP_NOWARN} (mem s)")
    have ok: "kmem_ok (mem s)" using inv by (simp add: pool_inv_def)
    show ?thesis
    proof (cases r)
      case None
      with al ok have "is_strm m' = is_strm (mem s)" "kmem_ok m'"
        using alloc_None_strm[of "mem s"] zcomp_strm_alloc_None[of "mem s"] by auto
      with inv t co sl nin Find_alloc al None show ?thesis
        by (auto simp: pool_inv_def)
    next
      case (Some z)
      with al ok have z: "is_strm m' z" "\<not> is_strm (mem s) z" "\<And>y. is_strm (mem s) y \<Longrightarrow> is_strm m' y" "kmem_ok m'"
        using alloc_Some_strm[of "mem s"] zcomp_strm_alloc_Some_ok[of "mem s"] by auto
      with inv t co sl nin Find_alloc al Some show ?thesis
        by (auto simp: pool_inv_def list_all_iff)
    qed
  next
    case Find_unreserve
    with inv t co sl nin show ?thesis by (auto simp: pool_inv_def)
  next
    case Find_wait
    with inv t co sl nin show ?thesis by (auto simp: pool_inv_def)
  next
    case Find_sleep
    with inv t co sl nin show ?thesis by (auto simp: pool_inv_def)
  next
    case (Got r)
    then have "(pcs s)[t := Got r] = pcs s"
      using list_update_id[of "pcs s" t] by simp
    with inv t Got show ?thesis by (auto simp: pool_inv_def)
  qed
qed

lemma pool_inv_release:
  assumes inv: "pool_inv s" and t: "t < length (pcs s)"
  shows "pool_inv (exec1 (Release t) s)"
proof (cases "\<exists>z. pcs s ! t = Got (Some z)")
  case False
  then show ?thesis using inv t by (auto split: pc.splits option.splits)
next
  case True
  then obtain z where z: "pcs s ! t = Got (Some z)" by blast
  show ?thesis
  proof (cases "avail_strm (pool s) \<le> max_strm (pool s)")
    case True
    have t': "t < length (wake_up (pcs s))" using t by (simp add: wake_up_length)
    have z': "wake_up (pcs s) ! t = Got (Some z)" using t z by (simp add: wake_up_nth)
    from checked_out_update[OF t', of Idle] z' obtain A B where
      co: "checked_out (pcs s) = A @ [z] @ B" "checked_out ((wake_up (pcs s))[t := Idle]) = A @ B"
      by (auto simp: wake_up_checked_out)
    have sl: "sum_list (map slot ((wake_up (pcs s))[t := Idle])) = sum_list (map slot (pcs s)) - 1"
      using slot_update[OF t', of Idle] z' by (simp add: wake_up_slot)
    have nin: "Got None \<notin> set ((wake_up (pcs s))[t := Idle])"
      using inv not_in_update[of "Got None" "wake_up (pcs s)" Idle t]
      by (simp add: pool_inv_def wake_up_Got)
    from inv t z True co sl nin show ?thesis
      by (auto simp: pool_inv_def zcomp_strm_multi_release_def)
  next
    case False
    from checked_out_update[OF t, of Idle] z obtain A B where
      co: "checked_out (pcs s) = A @ [z] @ B" "checked_out ((pcs s)[t := Idle]) = A @ B"
      by auto
    have sl: "sum_list (map slot ((pcs s)[t := Idle])) = sum_list (map slot (pcs s)) - 1"
      using slot_update[OF t, of Idle] z by simp
    have nin: "Got None \<notin> set ((pcs s)[t := Idle])"
      using inv not_in_update[of "Got None" "pcs s" Idle t] by (simp add: pool_inv_def)
    have zs: "is_strm (mem s) z" using inv co by (simp add: pool_inv_def)
    have idle: "idle_strm (pool s) = []" using inv False by (simp add: pool_inv_def)
    from inv t z False co sl nin idle show ?thesis
      by (auto simp: pool_inv_def zcomp_strm_multi_release_def free_kmem_ok
          free_is_strm[OF zs] list_all_iff)
  qed
qed

lemma set_max_streams_loop_inv:
  assumes "kmem_ok m" "distinct (idle_strm zs @ co)" "list_all (is_strm m) (idle_strm zs @ co)"
    and "avail_strm zs = int (length (idle_strm zs)) + c"
    and "set_max_streams_loop n zs m = (zs', m')"
  shows "kmem_ok m' \<and> distinct (idle_strm zs' @ co) \<and> list_all (is_strm m') (idle_strm zs' @ co)
    \<and> avail_strm zs' = int (length (idle_strm zs')) + c \<and> max_strm zs' = max_strm zs
    \<and> (avail_strm zs' \<le> n \<or> idle_strm zs' = [])"
  using assms
proof (induction n zs m rule: set_max_streams_loop.induct)
  case (1 n zs m)
  show ?case
  proof (cases "avail_strm zs > n \<and> idle_strm zs \<noteq> []")
    case False
    with "1.prems" show ?thesis by auto
  next
    case True
    then obtain z rest where idle: "idle_strm zs = z # rest" by (cases "idle_strm zs") auto
    have zs: "is_strm m z" using "1.prems"(3) idle by simp
    let ?zs = "zs\<lparr>idle_strm := tl (idle_strm zs), avail_strm := avail_strm zs - 1\<rparr>"
    let ?m = "zcomp_strm_free (hd (idle_strm zs)) m"
    have "kmem_ok m' \<and> distinct (idle_strm zs' @ co) \<and> list_all (is_strm m') (idle_strm zs' @ co)
      \<and> avail_strm zs' = int (length (idle_strm zs')) + c \<and> max_strm zs' = max_strm ?zs
      \<and> (avail_strm zs' \<le> n \<or> idle_strm zs' = [])"
    proof (rule "1.IH"[OF True])
      show "kmem_ok ?m" using "1.prems"(1) by (rule free_kmem_ok)
      show "distinct (idle_strm ?zs @ co)" using "1.prems"(2) idle by simp
      show "list_all (is_strm ?m) (idle_strm ?zs @ co)"
        using "1.prems"(2,3) idle by (auto simp: free_is_strm[OF zs] list_all_iff)
      show "avail_strm ?zs = int (length (idle_strm ?zs)) + c"
        using "1.prems"(4) idle by simp
      show "set_max_streams_loop n ?zs ?m = (zs', m')"
        using "1.prems"(5) True by simp
    qed
    then show ?thesis by auto
  qed
qed

lemma pool_inv_set_max:
  assumes inv: "pool_inv s"
  shows "pool_inv (exec1 (Set_max n) s)"
proof -
  obtain zs' m' where l: "set_max_streams_loop n ((pool s)\<lparr>max_strm := n\<rparr>) (mem s) = (zs', m')"
    by (cases "set_max_streams_loop n ((pool s)\<lparr>max_strm := n\<rparr>) (mem s)")
  from inv have
    "kmem_ok m' \<and> distinct (idle_strm zs' @ checked_out (pcs s))
     \<and> list_all (is_strm m') (idle_strm zs' @ checked_out (pcs s))
     \<and> avail_strm zs' = int (length (idle_strm zs')) + sum_list (map slot (pcs s))
     \<and> max_strm zs' = max_strm ((pool s)\<lparr>max_strm := n\<rparr>)
     \<and> (avail_strm zs' \<le> n \<or> idle_strm zs' = [])"
    by (intro set_max_streams_loop_inv[OF _ _ _ _ l]) (simp_all add: pool_inv_def)
  with inv show ?thesis
    by (auto simp: pool_inv_def zcomp_strm_multi_set_max_streams_def l simp del: set_max_streams_loop.simps)
qed

lemma pool_inv_exec1: "pool_inv s \<Longrightarrow> pool_inv (exec1 e s)"
proof (cases e)
  case (Find t)
  assume "pool_inv s"
  then show ?thesis using Find pool_inv_find[of s t] by (cases "t < length (pcs s)") auto
next
  case (Release t)
  assume "pool_inv s"
  then show ?thesis using Release pool_inv_release[of s t] by (cases "t < length (pcs s)") auto
next
  case (Set_max n)
  assume "pool_inv s"
  then show ?thesis using Set_max pool_inv_set_max[of s n] by simp
qed

lemma pool_inv_exec: "pool_inv s \<Longrightarrow> pool_inv (exec evs s)"
  unfolding exec_def
  by (induction evs arbitrary: s) (simp_all add: pool_inv_exec1)

section \<open>Creating a pool\<close>

lemma kmalloc_Some:
  assumes "kmalloc b m = (Some p, m1)"
  shows "p = brk m \<and> slab m1 = (slab m)(p \<mapsto> b) \<and> tfms m1 = tfms m \<and> pages m1 = pages m
    \<and> brk m1 = Suc p \<and> fates m = Grant # fates m1 \<and> dirt m1 = dirt m"
  using assms by (auto simp: kmalloc_def next_fate_def split: list.splits fate.splits)

lemma kmalloc_None:
  assumes "kmalloc b m = (None, m1)"
  shows "same_allocs m m1 \<and> brk m1 = brk m \<and> take 1 (fates m) \<noteq> [Grant]"
  using assms by (auto simp: kmalloc_def next_fate_def same_allocs_def split: list.splits fate.splits)

lemma kmalloc_ok:
  assumes "kmem_ok m" "kmalloc b m = (r, m1)"
  shows "kmem_ok m1"
  using assms by (auto simp: kmalloc_def next_fate_def kmem_ok_def split: list.splits fate.splits)

lemma zcomp_strm_alloc_grants:
  "(\<exists>z s'. zcomp_strm_alloc alg flags s = (Some z, s')) \<longleftrightarrow> take 3 (fates s) = [Grant, Grant, Grant]"
  by (auto simp: alloc_defs split: list.splits fate.splits if_splits)

lemma multi_create_Inr:
  assumes "kmem_ok m" "zcomp_strm_multi_create alg n m = (Inr (p, zs), m')"
  shows "zs = \<lparr>max_strm = n, avail_strm = 1, idle_strm = [Suc p]\<rparr> \<and> p = brk m
    \<and> kmem_ok m' \<and> is_strm m' (Suc p) \<and> slab m' p = Some Strm_multi_blk
    \<and> (\<forall>a. a < brk m \<longrightarrow> slab m' a = slab m a)
    \<and> take 4 (fates m) = [Grant, Grant, Grant, Grant]"
proof -
  from assms(2) obtain m1 z where
    k: "kmalloc Strm_multi_blk m = (Some p, m1)" and
    a: "zcomp_strm_alloc alg {GFP_KERNEL} m1 = (Some z, m')" and
    zs: "zs = \<lparr>max_strm = n, avail_strm = 1, idle_strm = [z]\<rparr>"
    by (auto simp: zcomp_strm_multi_create_def Let_def split: prod.splits option.splits)
  from kmalloc_ok[OF assms(1) k] have ok1: "kmem_ok m1" .
  from kmalloc_Some[OF k] zcomp_strm_alloc_Some[OF a] zcomp_strm_alloc_Some_ok[OF ok1 a] zs
  show ?thesis by (auto simp: is_strm_def)
qed

lemma multi_create_Inl:
  assumes "kmem_ok m" "zcomp_strm_multi_create alg n m = (Inl e, m')"
  shows "e = - ENOMEM \<and> same_allocs m m' \<and> kmem_ok m' \<and> take 4 (fates m) \<noteq> [Grant, Grant, Grant, Grant]"
proof (cases "kmalloc Strm_multi_blk m")
  case (Pair r m1)
  show ?thesis
  proof (cases r)
    case None
    with Pair assms kmalloc_None[of Strm_multi_blk m m1] kmalloc_ok[of m Strm_multi_blk r m1]
    show ?thesis
      by (cases "fates m") (auto simp: zcomp_strm_multi_create_def)
  next
    case (Some p)
    with Pair assms(2) obtain m2 where
      a: "zcomp_strm_alloc alg {GFP_KERNEL} m1 = (None, m2)" and m': "m' = kfree (Some p) m2" and e: "e = - ENOMEM"
      by (auto simp: zcomp_strm_multi_create_def Let_def split: prod.splits option.splits)
    from kmalloc_ok[OF assms(1) Pair] have ok1: "kmem_ok m1" .
    have ng: "take 3 (fates m1) \<noteq> [Grant, Grant, Grant]"
      using zcomp_strm_alloc_grants[of alg "{GFP_KERNEL}" m1] a by auto
    from kmalloc_Some[OF Pair[unfolded Some]] zcomp_strm_alloc_None[OF ok1 a] assms(1) m' e ng
    show ?thesis
      by (auto simp: same_allocs_def kfree_def kmem_ok_def)
  qed
qed

lemma single_create_Inr:
  assumes "kmem_ok m" "zcomp_strm_single_create alg m = (Inr (p, zs), m')"
  shows "zs = \<lparr>zstrm = Suc p, strm_lock = False\<rparr> \<and> p = brk m
    \<and> kmem_ok m' \<and> is_strm m' (Suc p) \<and> slab m' p = Some Strm_single_blk
    \<and> (\<forall>a. a < brk m \<longrightarrow> slab m' a = slab m a)
    \<and> take 4 (fates m) = [Grant, Grant, Grant, Grant]"
proof -
  from assms(2) obtain m1 z where
    k: "kmalloc Strm_single_blk m = (Some p, m1)" and
    a: "zcomp_strm_alloc alg {GFP_KERNEL} m1 = (Some z, m')" and
    zs: "zs = \<lparr>zstrm = z, strm_lock = False\<rparr>"
    by (auto simp: zcomp_strm_single_create_def split: prod.splits option.splits)
  from kmalloc_ok[OF assms(1) k] have ok1: "kmem_ok m1" .
  from kmalloc_Some[OF k] zcomp_strm_alloc_Some[OF a] zcomp_strm_alloc_Some_ok[OF ok1 a] zs
  show ?thesis by (auto simp: is_strm_def)
qed

lemma single_create_Inl:
  assumes "kmem_ok m" "zcomp_strm_single_create alg m = (Inl e, m')"
  shows "e = - ENOMEM \<and> same_allocs m m' \<and> kmem_ok m' \<and> take 4 (fates m) \<noteq> [Grant, Grant, Grant, Grant]"
proof (cases "kmalloc Strm_single_blk m")
  case (Pair r m1)
  show ?thesis
  proof (cases r)
    case None
    with Pair assms kmalloc_None[of Strm_single_blk m m1] kmalloc_ok[of m Strm_single_blk r m1]
    show ?thesis
      by (cases "fates m") (auto simp: zcomp_strm_single_create_def)
  next
    case (Some p)
    with Pair assms(2) obtain m2 where
      a: "zcomp_strm_alloc alg {GFP_KERNEL} m1 = (None, m2)" and m': "m' = kfree (Some p) m2" and e: "e = - ENOMEM"
      by (auto simp: zcomp_strm_single_create_def split: prod.splits option.splits)
    from kmalloc_ok[OF assms(1) Pair] have ok1: "kmem_ok m1" .
    have ng: "take 3 (fates m1) \<noteq> [Grant, Grant, Grant]"
      using zcomp_strm_alloc_grants[of alg "{GFP_KERNEL}" m1] a by auto
    from kmalloc_Some[OF Pair[unfolded Some]] zcomp_strm_alloc_None[OF ok1 a] assms(1) m' e ng
    show ?thesis
      by (auto simp: same_allocs_def kfree_def kmem_ok_def)
  qed
qed

lemma same_allocs_trans: "same_allocs a b \<Longrightarrow> same_allocs b c \<Longrightarrow> same_allocs a c"
  by (simp add: same_allocs_def)

lemma kfree_fresh:
  assumes "kmem_ok m" "kmalloc b m = (Some c, m1)" "same_allocs m1 m2"
  shows "same_allocs m (kfree (Some c) m2)"
  using assms kmalloc_Some[OF assms(2)]
  by (auto simp: same_allocs_def kfree_def kmem_ok_def)

lemma zcomp_create_PTR:
  assumes "kmem_ok m" "zcomp_create lz4 compress n m = (PTR (c, cmp), m')"
  shows "find_backend lz4 compress = Some (name cmp) \<and> slab m' c = Some Zcomp_blk \<and> kmem_ok m'
    \<and> (case stream cmp of
          Single p zs \<Rightarrow> n \<le> 1 \<and> is_strm m' (zstrm zs) \<and> \<not> is_strm m (zstrm zs)
        | Multi p zs \<Rightarrow> 1 < n \<and> (\<exists>z. zs = \<lparr>max_strm = n, avail_strm = 1, idle_strm = [z]\<rparr>
              \<and> is_strm m' z \<and> \<not> is_strm m z))
    \<and> take 5 (fates m) = [Grant, Grant, Grant, Grant, Grant]"
proof -
  from assms(2) obtain b where b: "find_backend lz4 compress = Some b"
    by (auto simp: zcomp_create_def split: option.splits)
  from assms(2) b obtain m1 where k: "kmalloc Zcomp_blk m = (Some c, m1)"
    by (auto simp: zcomp_create_def split: option.splits prod.splits if_splits sum.splits)
  from kmalloc_ok[OF assms(1) k] have ok1: "kmem_ok m1" .
  note ks = kmalloc_Some[OF k]
  show ?thesis
  proof (cases "1 < n")
    case True
    with assms(2) b k obtain p zs where
      mc: "zcomp_strm_multi_create b n m1 = (Inr (p, zs), m')" and
      cmp: "cmp = \<lparr>name = b, stream = Multi p zs\<rparr>"
      by (auto simp: zcomp_create_def split: prod.splits sum.splits)
    from multi_create_Inr[OF ok1 mc] ks assms(1) b cmp True show ?thesis
      by (auto simp: is_strm_def kmem_ok_def)
  next
    case False
    with assms(2) b k obtain p zs where
      mc: "zcomp_strm_single_create b m1 = (Inr (p, zs), m')" and
      cmp: "cmp = \<lparr>name = b, stream = Single p zs\<rparr>"
      by (auto simp: zcomp_create_def split: prod.splits sum.splits)
    from single_create_Inr[OF ok1 mc] ks assms(1) b cmp False show ?thesis
      by (auto simp: is_strm_def kmem_ok_def)
  qed
qed

lemma zcomp_create_not_NULL: "zcomp_create lz4 compress n m \<noteq> (NULL, m')"
  by (auto simp: zcomp_create_def split: option.splits prod.splits sum.splits)

lemma zcomp_create_ERR:
  assumes "kmem_ok m" "find_backend lz4 compress = Some b"
    and "zcomp_create lz4 compress n m = (ERR_PTR e, m')"
  shows "e = - ENOMEM \<and> same_allocs m m' \<and> take 5 (fates m) \<noteq> [Grant, Grant, Grant, Grant, Grant]"
proof (cases "kmalloc Zcomp_blk m")
  case (Pair r m1)
  show ?thesis
  proof (cases r)
    case None
    with Pair assms kmalloc_None[of Zcomp_blk m m1] show ?thesis
      by (cases "fates m") (auto simp: zcomp_create_def)
  next
    case (Some c)
    from kmalloc_ok[OF assms(1) Pair] have ok1: "kmem_ok m1" .
    note k = Pair[unfolded Some]
    note ks = kmalloc_Some[OF k]
    show ?thesis
    proof (cases "1 < n")
      case True
      with assms(2,3) k obtain m2 where
        mc: "zcomp_strm_multi_create b n m1 = (Inl e, m2)" and m': "m' = kfree (Some c) m2"
        by (auto simp: zcomp_create_def split: prod.splits sum.splits)
      from multi_create_Inl[OF ok1 mc] kfree_fresh[OF assms(1) k, of m2] m' ks show ?thesis
        by auto
    next
      case False
      with assms(2,3) k obtain m2 where
        mc: "zcomp_strm_single_create b m1 = (Inl e, m2)" and m': "m' = kfree (Some c) m2"
        by (auto simp: zcomp_create_def split: prod.splits sum.splits)
      from single_create_Inl[OF ok1 mc] kfree_fresh[OF assms(1) k, of m2] m' ks show ?thesis
        by auto
    qed
  qed
qed

text \<open>
  Claim C5. For a name that \<open>find_backend\<close> accepts, \<open>zcomp_create\<close> never returns NULL.
  When it returns a \<open>zcomp\<close>, its name is the registered backend, and the pool is the
  single-stream one exactly when \<open>max_strm \<le> 1\<close> and the multi-stream one when
  \<open>max_strm > 1\<close>; the multi-stream pool then has \<open>max_strm\<close> as asked, \<open>avail_strm = 1\<close>
  and an idle list of exactly one stream, which is in memory now and was not before the
  call. When it returns an error, the error is \<open>-ENOMEM\<close> and memory holds the
  allocations it held before the call: the pool structure, the \<open>zcomp\<close> and every part
  of the seed stream are freed again. The call succeeds exactly when the five allocations
  it makes (the \<open>zcomp\<close>, the pool structure and the three of the seed stream) are
  granted, so a seed stream that cannot be allocated fails the whole call.
\<close>

theorem zcomp_create_strategy:
  assumes "kmem_ok m" and "find_backend lz4 compress = Some b"
    and "zcomp_create lz4 compress n m = (r, m')"
  shows "(case r of
            PTR (c, cmp) \<Rightarrow>
              name cmp = b \<and> slab m' c = Some Zcomp_blk \<and>
              (case stream cmp of
                 Single p zs \<Rightarrow> n \<le> 1 \<and> is_strm m' (zstrm zs) \<and> \<not> is_strm m (zstrm zs)
               | Multi p zs \<Rightarrow>
                   1 < n \<and> (\<exists>z. zs = \<lparr>max_strm = n, avail_strm = 1, idle_strm = [z]\<rparr>
                               \<and> is_strm m' z \<and> \<not> is_strm m z))
          | ERR_PTR e \<Rightarrow> e = - ENOMEM \<and> same_allocs m m'
          | NULL \<Rightarrow> False)
       \<and> ((\<exists>x. r = PTR x) \<longleftrightarrow> take 5 (fates m) = [Grant, Grant, Grant, Grant, Grant])"
proof (cases r)
  case NULL
  with assms(3) zcomp_create_not_NULL show ?thesis by blast
next
  case (ERR_PTR e)
  with assms zcomp_create_ERR[of m lz4 compress b n e m'] show ?thesis by auto
next
  case (PTR x)
  obtain c cmp where x: "x = (c, cmp)" by (cases x)
  from zcomp_create_PTR[OF assms(1) assms(3)[unfolded PTR x]] assms(2) PTR x
  show ?thesis by (auto split: strm_backend.splits)
qed

lemma boot_Some:
  assumes "kmem_ok m" "boot lz4 compress n k m = Some s"
  shows "pool_inv s \<and> (\<exists>z. pool s = \<lparr>max_strm = n, avail_strm = 1, idle_strm = [z]\<rparr>)
    \<and> pcs s = replicate k Idle \<and> 1 < n \<and> find_backend lz4 compress = Some (cname s)"
proof -
  from assms(2) obtain c cmp m' p zs where
    cr: "zcomp_create lz4 compress n m = (PTR (c, cmp), m')" and
    st: "stream cmp = Multi p zs" and
    s: "s = \<lparr>mem = m', cname = name cmp, pool = zs, pcs = replicate k Idle\<rparr>"
    by (auto simp: boot_def split: prod.splits kptr.splits strm_backend.splits)
  have co: "checked_out (replicate k Idle) = []"
    by (induction k) (simp_all add: checked_out_def)
  have sl: "sum_list (map slot (replicate k Idle)) = 0"
    by (induction k) simp_all
  from zcomp_create_PTR[OF assms(1) cr] st s co sl show ?thesis
    by (auto simp: pool_inv_def)
qed

text \<open>
  Claim C6. A stream returned by \<open>zcomp_strm_alloc\<close> is a block with a codec handle
  bound to the algorithm name and a buffer of exactly \<open>2 * PAGE_SIZE\<close> bytes, all three
  freshly allocated. When the call returns NULL, memory holds the allocations it held
  before: whatever was allocated on the way has been freed. The call returns a stream
  exactly when its three allocations are granted, so a refused codec handle or a refused
  buffer makes it return NULL.
\<close>

theorem zcomp_strm_alloc_all_or_nothing:
  assumes "kmem_ok s" and "zcomp_strm_alloc alg flags s = (r, s')"
  shows "(case r of
            Some z \<Rightarrow>
              (\<exists>t b bytes. slab s' z = Some (Zstrm \<lparr>tfm = PTR t, buffer = Some b\<rparr>)
                 \<and> tfms s' t = Some alg \<and> pages s' b = Some bytes
                 \<and> length bytes = 2 * PAGE_SIZE
                 \<and> slab s z = None \<and> tfms s t = None \<and> pages s b = None)
          | None \<Rightarrow> same_allocs s s')
       \<and> (r \<noteq> None \<longleftrightarrow> take 3 (fates s) = [Grant, Grant, Grant])"
proof (cases r)
  case None
  with assms zcomp_strm_alloc_None[of s alg flags s'] zcomp_strm_alloc_grants[of alg flags s]
  show ?thesis by auto
next
  case (Some z)
  with assms zcomp_strm_alloc_Some[of alg flags s z s'] zcomp_strm_alloc_grants[of alg flags s]
  show ?thesis by (auto simp: kmem_ok_def)
qed

text \<open>
  C6 at a concrete input: the block and the codec handle are granted, the buffer is
  refused; the call returns NULL and nothing stays allocated.
\<close>

theorem zcomp_strm_alloc_all_or_nothing_witness:
  "kmem_ok (mem0 [Grant, Grant, Deny])
   \<and> fst (zcomp_strm_alloc ''lzo'' {GFP_KERNEL} (mem0 [Grant, Grant, Deny])) = None
   \<and> same_allocs (mem0 [Grant, Grant, Deny])
        (snd (zcomp_strm_alloc ''lzo'' {GFP_KERNEL} (mem0 [Grant, Grant, Deny])))"
proof -
  have ok: "kmem_ok (mem0 [Grant, Grant, Deny])"
    by (simp add: kmem_ok_def mem0_def)
  have r: "fst (zcomp_strm_alloc ''lzo'' {GFP_KERNEL} (mem0 [Grant, Grant, Deny])) = None"
    by (simp add: alloc_defs mem0_def)
  from zcomp_strm_alloc_all_or_nothing[OF ok, of "''lzo''" "{GFP_KERNEL}" None
      "snd (zcomp_strm_alloc ''lzo'' {GFP_KERNEL} (mem0 [Grant, Grant, Deny]))"] r ok
  show ?thesis by (simp add: prod_eq_iff)
qed

section \<open>Streams, names and resizing\<close>

lemma alloc_Some_buffer:
  assumes "zcomp_strm_alloc alg flags m = (Some z, m')"
  shows "strm_buffer m' z = Some (replicate (2 * PAGE_SIZE) 0)"
  using zcomp_strm_alloc_Some[OF assms] by (simp add: strm_buffer_def)

lemma multi_create_buffer:
  assumes "zcomp_strm_multi_create alg n m = (Inr (p, zs), m')"
  shows "list_all (\<lambda>z. strm_buffer m' z = Some (replicate (2 * PAGE_SIZE) 0)) (idle_strm zs)"
  using assms
  by (auto simp: zcomp_strm_multi_create_def Let_def alloc_Some_buffer split: prod.splits option.splits)

lemma single_create_buffer:
  assumes "zcomp_strm_single_create alg m = (Inr (p, zs), m')"
  shows "strm_buffer m' (zstrm zs) = Some (replicate (2 * PAGE_SIZE) 0)"
  using assms
  by (auto simp: zcomp_strm_single_create_def Let_def alloc_Some_buffer split: prod.splits option.splits)

lemma zcomp_create_buffer:
  assumes "zcomp_create lz4 compress n m = (PTR (c, cmp), m')"
  shows "case stream cmp of
           Single p zs \<Rightarrow> strm_buffer m' (zstrm zs) = Some (replicate (2 * PAGE_SIZE) 0)
         | Multi p zs \<Rightarrow>
             list_all (\<lambda>z. strm_buffer m' z = Some (replicate (2 * PAGE_SIZE) 0)) (idle_strm zs)"
  using assms
  by (auto simp: zcomp_create_def multi_create_buffer single_create_buffer
      split: option.splits prod.splits sum.splits if_splits)

text \<open>
  Claim C10. The buffer of every stream that \<open>zcomp_strm_alloc\<close> returns consists of
  \<open>2 * PAGE_SIZE\<close> zero bytes, whatever flags the caller passed, since the function adds
  \<open>__GFP_ZERO\<close> itself. This holds for the seed stream of a pool made by
  \<open>zcomp_create\<close> (single or multi) and for a stream allocated when
  \<open>zcomp_strm_multi_find\<close> grows the pool.
\<close>

theorem scratch_buffer_zeroed:
  "(zcomp_strm_alloc alg flags m = (Some z, m') \<longrightarrow>
      strm_buffer m' z = Some (replicate (2 * PAGE_SIZE) 0))
   \<and> (zcomp_create cfg compress n m = (PTR (c, cmp), m') \<longrightarrow>
        (case stream cmp of
           Single p zs \<Rightarrow> strm_buffer m' (zstrm zs) = Some (replicate (2 * PAGE_SIZE) 0)
         | Multi p zs \<Rightarrow>
             idle_strm zs \<noteq> [] \<and>
             list_all (\<lambda>y. strm_buffer m' y = Some (replicate (2 * PAGE_SIZE) 0)) (idle_strm zs)))
   \<and> (zcomp_strm_multi_find alg Find_alloc (za, m) = (Got (Some z), zb, m') \<longrightarrow>
        strm_buffer m' z = Some (replicate (2 * PAGE_SIZE) 0))"
proof (intro conjI impI)
  assume "zcomp_strm_alloc alg flags m = (Some z, m')"
  then show "strm_buffer m' z = Some (replicate (2 * PAGE_SIZE) 0)" by (rule alloc_Some_buffer)
next
  assume a: "zcomp_create cfg compress n m = (PTR (c, cmp), m')"
  have "case stream cmp of Single p zs \<Rightarrow> True | Multi p zs \<Rightarrow> idle_strm zs \<noteq> []"
    using a
    by (auto simp: zcomp_create_def zcomp_strm_multi_create_def Let_def
        split: option.splits prod.splits sum.splits if_splits)
  with zcomp_create_buffer[OF a]
  show "case stream cmp of
           Single p zs \<Rightarrow> strm_buffer m' (zstrm zs) = Some (replicate (2 * PAGE_SIZE) 0)
         | Multi p zs \<Rightarrow>
             idle_strm zs \<noteq> [] \<and>
             list_all (\<lambda>y. strm_buffer m' y = Some (replicate (2 * PAGE_SIZE) 0)) (idle_strm zs)"
    by (auto split: strm_backend.splits)
next
  assume "zcomp_strm_multi_find alg Find_alloc (za, m) = (Got (Some z), zb, m')"
  then have "zcomp_strm_alloc alg {GFP_NOIO, GFP_NORETRY, GFP_NOWARN} m = (Some z, m')"
    by (auto split: prod.splits if_splits)
  then show "strm_buffer m' z = Some (replicate (2 * PAGE_SIZE) 0)" by (rule alloc_Some_buffer)
qed

lemmas create_defs = zcomp_create_def zcomp_strm_multi_create_def zcomp_strm_single_create_def
  find_backend_def backends_def
lemmas run_defs = exec_def zcomp_strm_multi_release_def zcomp_strm_multi_set_max_streams_def wake_up_def

text \<open>
  What the lookup accepts: a registered name, or one followed by a single newline.
\<close>

lemma sysfs_streq_iff:
  "sysfs_streq s1 s2 \<longleftrightarrow> s1 = s2 \<or> s1 = s2 @ [newline] \<or> s2 = s1 @ [newline]"
  by (induction s1 s2 rule: sysfs_streq.induct) auto

lemma find_backend_loop_None:
  "find_backend_loop nm bs = None \<longleftrightarrow> (\<forall>b \<in> set bs. \<not> sysfs_streq nm b)"
  by (induction bs) auto

lemma find_backend_None_iff:
  "find_backend lz4 nm = None \<longleftrightarrow>
     (\<forall>b \<in> set (backends lz4). nm \<noteq> b \<and> nm \<noteq> b @ [newline])"
proof -
  have "\<And>b. b \<in> set (backends lz4) \<Longrightarrow> b \<noteq> nm @ [newline]"
    by (auto simp: backends_def newline_def split: if_splits)
  then show ?thesis
    unfolding find_backend_def find_backend_loop_None sysfs_streq_iff by blast
qed

lemma set_max_streams_loop_max:
  "max_strm (fst (set_max_streams_loop n zs m)) = max_strm zs"
proof (induction n zs m rule: set_max_streams_loop.induct)
  case (1 n zs m)
  then show ?case by (cases "avail_strm zs > n \<and> idle_strm zs \<noteq> []") auto
qed

text \<open>
  Claim C7. On a single-stream \<open>zcomp\<close>, \<open>zcomp_set_max_streams\<close> returns false and
  leaves the \<open>zcomp\<close> and memory unchanged, whatever number is asked for: the pool keeps
  its one stream. On a multi-stream \<open>zcomp\<close> it returns true, the pool stays
  the multi-stream pool at the same address and its \<open>max_strm\<close> is the number asked for.
\<close>

theorem set_max_streams_result:
  "(case stream c of
      Single p zs \<Rightarrow> zcomp_set_max_streams c n m = (False, c, m)
    | Multi p zs \<Rightarrow>
        fst (zcomp_set_max_streams c n m) = True
        \<and> (case stream (fst (snd (zcomp_set_max_streams c n m))) of
             Single p' zs' \<Rightarrow> False
           | Multi p' zs' \<Rightarrow> p' = p \<and> max_strm zs' = n))"
proof (cases "stream c")
  case (Single p zs)
  then show ?thesis
    by (simp add: zcomp_set_max_streams_def zcomp_strm_single_set_max_streams_def)
next
  case (Multi p zs)
  then show ?thesis
    using set_max_streams_loop_max[of n "zs\<lparr>max_strm := n\<rparr>" m]
    by (auto simp: zcomp_set_max_streams_def zcomp_strm_multi_set_max_streams_def
        split: prod.splits simp del: set_max_streams_loop.simps)
qed

text \<open>
  C7 at concrete inputs: one single-stream and one multi-stream \<open>zcomp\<close>, both asked
  for four streams.
\<close>

theorem set_max_streams_result_witness:
  "zcomp_set_max_streams \<lparr>name = ''lzo'', stream = Single 1 \<lparr>zstrm = 2, strm_lock = False\<rparr>\<rparr> 4 (mem0 [])
     = (False, \<lparr>name = ''lzo'', stream = Single 1 \<lparr>zstrm = 2, strm_lock = False\<rparr>\<rparr>, mem0 [])
   \<and> fst (zcomp_set_max_streams
        \<lparr>name = ''lzo'', stream = Multi 1 \<lparr>max_strm = 2, avail_strm = 1, idle_strm = []\<rparr>\<rparr> 4 (mem0 []))"
  using set_max_streams_result[of "\<lparr>name = ''lzo'', stream = Single 1 \<lparr>zstrm = 2, strm_lock = False\<rparr>\<rparr>" 4 "mem0 []"]
    set_max_streams_result[of "\<lparr>name = ''lzo'', stream = Multi 1 \<lparr>max_strm = 2, avail_strm = 1, idle_strm = []\<rparr>\<rparr>" 4 "mem0 []"]
  by simp

lemma sysfs_streq_newline: "sysfs_streq (b @ [newline]) b"
  by (induction b) simp_all

text \<open>
  Claim C9. Let \<open>b\<close> be a registered backend name. The name \<open>b\<close> followed by a newline
  is accepted by \<open>find_backend\<close> (hence by \<open>zcomp_available_algorithm\<close>) as \<open>b\<close>, and
  \<open>zcomp_create\<close> succeeds on it when its allocations are granted. Yet
  \<open>zcomp_available_show\<close>, which compares with \<open>strcmp\<close>, puts no bracket into its
  output for that name, while for \<open>b\<close> itself it does.
\<close>

theorem newline_accepted_not_marked:
  assumes "b \<in> set (backends lz4)"
  shows "find_backend lz4 (b @ [newline]) = Some b
    \<and> zcomp_available_algorithm lz4 (b @ [newline])
    \<and> (fates m = Grant # Grant # Grant # Grant # Grant # fs \<longrightarrow>
         (\<exists>c cmp m'. zcomp_create lz4 (b @ [newline]) n m = (PTR (c, cmp), m') \<and> name cmp = b))
    \<and> CHR ''['' \<notin> set (zcomp_available_show lz4 (b @ [newline]))
    \<and> CHR ''['' \<in> set (zcomp_available_show lz4 b)"
proof -
  from assms have b: "b = ''lzo'' \<or> (lz4 \<and> b = ''lz4'')"
    by (auto simp: backends_def split: if_splits)
  have fb: "find_backend lz4 (b @ [newline]) = Some b"
    using b by (auto simp: find_backend_def backends_def newline_def)
  have cr: "\<exists>c cmp m'. zcomp_create lz4 (b @ [newline]) n m = (PTR (c, cmp), m') \<and> name cmp = b"
    if "fates m = Grant # Grant # Grant # Grant # Grant # fs"
    using that fb
    by (simp add: zcomp_create_def zcomp_strm_multi_create_def zcomp_strm_single_create_def
        alloc_defs Let_def)
  have sh: "CHR ''['' \<notin> set (zcomp_available_show lz4 (b @ [newline]))"
    using b by (auto simp: zcomp_available_show_def backends_def scnprintf_def PAGE_SIZE_def newline_def)
  have sh': "CHR ''['' \<in> set (zcomp_available_show lz4 b)"
    using b by (auto simp: zcomp_available_show_def backends_def scnprintf_def PAGE_SIZE_def newline_def)
  from fb cr sh sh' show ?thesis by (simp add: zcomp_available_algorithm_def)
qed

section \<open>Acquire and release\<close>

lemma length_pcs_exec1: "length (pcs (exec1 e s)) = length (pcs s)"
  by (cases e) (auto simp: wake_up_length split: prod.splits pc.splits option.splits)

lemma length_pcs_exec: "length (pcs (exec evs s)) = length (pcs s)"
  unfolding exec_def
  by (induction evs arbitrary: s) (simp_all add: length_pcs_exec1)

lemma free_strm_parts:
  assumes "slab m z = Some (Zstrm st)"
  shows "(\<forall>a. tfm st = PTR a \<longrightarrow> tfms (zcomp_strm_free z m) a = None)
    \<and> (\<forall>b. buffer st = Some b \<longrightarrow> pages (zcomp_strm_free z m) b = None)"
  using assms
  by (auto simp: zcomp_strm_free_def crypto_free_comp_def free_pages_def kfree_def Let_def
      split: option.splits)

text \<open>
  Claim C3. A caller \<open>t\<close> that owns the stream \<open>z\<close> releases it. If
  \<open>avail_strm \<le> max_strm\<close> at that moment, \<open>z\<close> is put at the head of the idle list,
  the counters and memory are unchanged, and after the \<open>wake_up\<close> no caller is asleep:
  each one that slept tests its condition again. Otherwise the idle list is unchanged,
  \<open>avail_strm\<close> is one less, and the stream's block, codec handle and buffer are freed;
  the sleepers stay asleep. Either way the caller owns nothing afterwards. The test reads
  the pool's current \<open>max_strm\<close> and nothing else.
\<close>

theorem release_rule:
  assumes "t < length (pcs s)" and "pcs s ! t = Got (Some z)" and "slab (mem s) z = Some (Zstrm st)"
  shows "(if avail_strm (pool s) \<le> max_strm (pool s)
          then pool (exec1 (Release t) s) = (pool s)\<lparr>idle_strm := z # idle_strm (pool s)\<rparr>
             \<and> mem (exec1 (Release t) s) = mem s
             \<and> Find_sleep \<notin> set (pcs (exec1 (Release t) s))
             \<and> (\<forall>u < length (pcs s). pcs s ! u = Find_sleep \<longrightarrow> pcs (exec1 (Release t) s) ! u = Find_wait)
          else pool (exec1 (Release t) s) = (pool s)\<lparr>avail_strm := avail_strm (pool s) - 1\<rparr>
             \<and> slab (mem (exec1 (Release t) s)) = (slab (mem s))(z := None)
             \<and> (\<forall>a. tfm st = PTR a \<longrightarrow> tfms (mem (exec1 (Release t) s)) a = None)
             \<and> (\<forall>b. buffer st = Some b \<longrightarrow> pages (mem (exec1 (Release t) s)) b = None)
             \<and> pcs (exec1 (Release t) s) = (pcs s)[t := Idle])
       \<and> pcs (exec1 (Release t) s) ! t = Idle"
proof (cases "avail_strm (pool s) \<le> max_strm (pool s)")
  case True
  have ns: "Find_sleep \<notin> set ((wake_up (pcs s))[t := Idle])"
    by (rule not_in_update) (auto simp: wake_up_def)
  have wk: "\<forall>u < length (pcs s). pcs s ! u = Find_sleep \<longrightarrow> (wake_up (pcs s))[t := Idle] ! u = Find_wait"
    using assms(1,2) by (auto simp: nth_list_update wake_up_nth wake_up_length)
  from True assms ns wk show ?thesis
    by (simp add: zcomp_strm_multi_release_def wake_up_length)
next
  case False
  have zs: "is_strm (mem s) z" using assms(3) by (simp add: is_strm_def)
  from False assms free_strm[OF zs] free_strm_parts[OF assms(3)] show ?thesis
    by (simp add: zcomp_strm_multi_release_def)
qed

text \<open>
  Claim C1. Take a pool made by \<open>zcomp_create\<close>, any number of callers and any sequence
  of steps. No caller ever comes back from \<open>zcomp_strm_multi_find\<close> with NULL, and a
  pointer it came back with is a stream in memory. When a caller has reserved a slot and
  its allocation fails, its next steps are: it keeps the pool as it is and goes to undo
  the reservation; it takes \<open>avail_strm\<close> down by one and goes to \<open>wait_event\<close>; there
  it falls asleep if the idle list is empty and otherwise returns to the top of the loop.
  A sleeping caller does not move on its own. A caller at the top of the loop that finds
  the idle list non-empty returns its first stream.
\<close>

theorem find_never_fails:
  assumes "kmem_ok m" and "boot lz4 compress n k m = Some s0" and "t < k"
  shows "pcs (exec evs s0) ! t \<noteq> Got None
    \<and> (\<forall>z. pcs (exec evs s0) ! t = Got (Some z) \<longrightarrow> is_strm (mem (exec evs s0)) z)
    \<and> (pcs (exec evs s0) ! t = Find_alloc
         \<and> fst (zcomp_strm_alloc (cname (exec evs s0)) {GFP_NOIO, GFP_NORETRY, GFP_NOWARN}
                 (mem (exec evs s0))) = None \<longrightarrow>
         pcs (exec (evs @ [Find t]) s0) ! t = Find_unreserve
         \<and> pool (exec (evs @ [Find t]) s0) = pool (exec evs s0)
         \<and> pcs (exec (evs @ [Find t, Find t]) s0) ! t = Find_wait
         \<and> pool (exec (evs @ [Find t, Find t]) s0)
             = (pool (exec evs s0))\<lparr>avail_strm := avail_strm (pool (exec evs s0)) - 1\<rparr>
         \<and> pcs (exec (evs @ [Find t, Find t, Find t]) s0) ! t
             = (if idle_strm (pool (exec evs s0)) = [] then Find_sleep else Find_top))
    \<and> (pcs (exec evs s0) ! t = Find_sleep \<longrightarrow> exec (evs @ [Find t]) s0 = exec evs s0)
    \<and> (pcs (exec evs s0) ! t = Find_top \<and> idle_strm (pool (exec evs s0)) \<noteq> [] \<longrightarrow>
         pcs (exec (evs @ [Find t]) s0) ! t = Got (Some (hd (idle_strm (pool (exec evs s0))))))"
proof -
  let ?s = "exec evs s0"
  from boot_Some[OF assms(1,2)] have inv0: "pool_inv s0" and k: "length (pcs s0) = k" by auto
  have inv: "pool_inv ?s" using inv0 by (rule pool_inv_exec)
  have t: "t < length (pcs ?s)" using k assms(3) by (simp add: length_pcs_exec)
  have ex: "\<And>es. exec (evs @ es) s0 = exec es ?s" by (simp add: exec_def)
  have 1: "pcs ?s ! t \<noteq> Got None"
    using inv t by (auto simp: pool_inv_def in_set_conv_nth)
  have 2: "is_strm (mem ?s) z" if "pcs ?s ! t = Got (Some z)" for z
  proof -
    from checked_out_update[OF t, of Idle] that have "z \<in> set (checked_out (pcs ?s))" by auto
    with inv show ?thesis by (auto simp: pool_inv_def list_all_iff)
  qed
  have 3: "pcs (exec [Find t] ?s) ! t = Find_unreserve
         \<and> pool (exec [Find t] ?s) = pool ?s
         \<and> pcs (exec [Find t, Find t] ?s) ! t = Find_wait
         \<and> pool (exec [Find t, Find t] ?s) = (pool ?s)\<lparr>avail_strm := avail_strm (pool ?s) - 1\<rparr>
         \<and> pcs (exec [Find t, Find t, Find t] ?s) ! t
             = (if idle_strm (pool ?s) = [] then Find_sleep else Find_top)"
    if "pcs ?s ! t = Find_alloc"
      "fst (zcomp_strm_alloc (cname ?s) {GFP_NOIO, GFP_NORETRY, GFP_NOWARN} (mem ?s)) = None"
    using that t by (auto simp: exec_def split: prod.splits)
  have 4: "exec [Find t] ?s = ?s" if "pcs ?s ! t = Find_sleep"
    using that t list_update_id[of "pcs ?s" t] by (simp add: exec_def)
  have 5: "pcs (exec [Find t] ?s) ! t = Got (Some (hd (idle_strm (pool ?s))))"
    if "pcs ?s ! t = Find_top" "idle_strm (pool ?s) \<noteq> []"
    using that t by (simp add: exec_def split: list.splits)
  from 1 2 3 4 5 show ?thesis unfolding ex by blast
qed

section \<open>Concrete runs\<close>

lemmas eval_defs = boot_def create_defs alloc_defs mem0_def run_defs newline_def

lemma mem0_ok: "kmem_ok (mem0 fs)"
  by (simp add: kmem_ok_def mem0_def)

lemma boot_retry:
  "boot False ''lzo'' 2 2 (mem0 [Grant, Grant, Grant, Grant, Grant, Deny]) \<noteq> None"
  by (simp add: eval_defs)

lemma boot_full: "boot True ''lzo'' 3 3 (mem0 (replicate 11 Grant)) \<noteq> None"
  by (simp add: eval_defs numeral_eq_Suc)

lemma full_pool_eval:
  "full_pool \<noteq> None
   \<and> pool (the full_pool) = \<lparr>max_strm = 3, avail_strm = 3, idle_strm = []\<rparr>
   \<and> pcs (the full_pool) = [Got (Some 2), Got (Some 5), Got (Some 8)]"
  by (simp add: full_pool_def eval_defs numeral_eq_Suc)

lemma full_pool_slab:
  "slab (mem (the full_pool)) 2 = Some (Zstrm \<lparr>tfm = PTR 3, buffer = Some 4\<rparr>)"
  by (simp add: full_pool_def eval_defs numeral_eq_Suc)

text \<open>
  C3 at a concrete input: the first caller of the full pool releases its stream.
\<close>

theorem release_rule_witness:
  "0 < length (pcs (the full_pool))
   \<and> pcs (the full_pool) ! 0 = Got (Some 2)
   \<and> slab (mem (the full_pool)) 2 = Some (Zstrm \<lparr>tfm = PTR 3, buffer = Some 4\<rparr>)
   \<and> pool (exec1 (Release 0) (the full_pool)) = \<lparr>max_strm = 3, avail_strm = 3, idle_strm = [2]\<rparr>
   \<and> pcs (exec1 (Release 0) (the full_pool)) ! 0 = Idle"
proof -
  have h1: "0 < length (pcs (the full_pool))" and h2: "pcs (the full_pool) ! 0 = Got (Some 2)"
    using full_pool_eval by simp_all
  from release_rule[OF h1 h2 full_pool_slab] h1 h2 full_pool_slab full_pool_eval
  show ?thesis by simp
qed

text \<open>
  C5 at a concrete input: the buffer of the seed stream is refused, the call returns
  \<open>-ENOMEM\<close> and leaves the empty memory empty.
\<close>

theorem zcomp_create_strategy_witness:
  "kmem_ok (mem0 [Grant, Grant, Grant, Grant, Deny])
   \<and> find_backend True ''lz4'' = Some ''lz4''
   \<and> fst (zcomp_create True ''lz4'' 4 (mem0 [Grant, Grant, Grant, Grant, Deny])) = ERR_PTR (- ENOMEM)
   \<and> same_allocs (mem0 [Grant, Grant, Grant, Grant, Deny])
        (snd (zcomp_create True ''lz4'' 4 (mem0 [Grant, Grant, Grant, Grant, Deny])))"
proof -
  let ?m = "mem0 [Grant, Grant, Grant, Grant, Deny]"
  have fb: "find_backend True ''lz4'' = Some ''lz4''"
    by (simp add: find_backend_def backends_def)
  have r: "fst (zcomp_create True ''lz4'' 4 ?m) = ERR_PTR (- ENOMEM)"
    by (simp add: eval_defs)
  have eq: "zcomp_create True ''lz4'' 4 ?m = (ERR_PTR (- ENOMEM), snd (zcomp_create True ''lz4'' 4 ?m))"
    using r by (simp add: prod_eq_iff)
  from zcomp_create_strategy[OF mem0_ok fb eq] r fb mem0_ok
  show ?thesis by simp
qed

text \<open>
  Claim C4 as stated fails. Three callers each own a stream of a pool of three; the limit
  is lowered to two. No caller is inside a pool function, yet \<open>avail_strm\<close> is 3 and
  \<open>max_strm\<close> is 2.
\<close>

theorem live_le_capacity_counterexample:
  "full_pool \<noteq> None
   \<and> quiescent (exec1 (Set_max 2) (the full_pool))
   \<and> \<not> avail_strm (pool (exec1 (Set_max 2) (the full_pool)))
        \<le> max_strm (pool (exec1 (Set_max 2) (the full_pool)))"
  using full_pool_eval
  by (simp add: quiescent_def zcomp_strm_multi_set_max_streams_def)

lemma exec_snoc: "exec (evs @ [e]) s = exec1 e (exec evs s)"
  by (simp add: exec_def)

lemma the_map_option: "x \<noteq> None \<Longrightarrow> the (map_option f x) = f (the x)"
  by (cases x) simp_all

section \<open>Lowering the limit\<close>


lemma set_max_streams_loop_count:
  assumes "set_max_streams_loop n zs m = (zs', m')"
  shows "int (length (idle_strm zs'))
           = int (length (idle_strm zs)) - min (int (length (idle_strm zs))) (max 0 (avail_strm zs - n))
       \<and> avail_strm zs'
           = avail_strm zs - min (int (length (idle_strm zs))) (max 0 (avail_strm zs - n))"
  using assms
proof (induction n zs m rule: set_max_streams_loop.induct)
  case (1 n zs m)
  show ?case
  proof (cases "avail_strm zs > n \<and> idle_strm zs \<noteq> []")
    case False
    with "1.prems" show ?thesis by auto
  next
    case True
    let ?zs = "zs\<lparr>idle_strm := tl (idle_strm zs), avail_strm := avail_strm zs - 1\<rparr>"
    from "1.prems" True have
      "set_max_streams_loop n ?zs (zcomp_strm_free (hd (idle_strm zs)) m) = (zs', m')"
      by simp
    from "1.IH"[OF True this] True show ?thesis
      by (cases "idle_strm zs") (auto simp: min_def max_def)
  qed
qed



text \<open>
  C10 at concrete inputs: a direct allocation, the seed stream of a new multi-stream
  pool, and a stream allocated on growth.
\<close>

theorem scratch_buffer_zeroed_witness:
  "fst (zcomp_strm_alloc ''lzo'' {GFP_NOIO} (mem0 [Grant, Grant, Grant])) = Some 0
   \<and> strm_buffer (snd (zcomp_strm_alloc ''lzo'' {GFP_NOIO} (mem0 [Grant, Grant, Grant]))) 0
       = Some (replicate (2 * PAGE_SIZE) 0)
   \<and> fst (zcomp_create False ''lzo'' 2 (mem0 [Grant, Grant, Grant, Grant, Grant]))
       = PTR (0, \<lparr>name = ''lzo'', stream = Multi 1 \<lparr>max_strm = 2, avail_strm = 1, idle_strm = [2]\<rparr>\<rparr>)
   \<and> strm_buffer (snd (zcomp_create False ''lzo'' 2 (mem0 [Grant, Grant, Grant, Grant, Grant]))) 2
       = Some (replicate (2 * PAGE_SIZE) 0)
   \<and> fst (zcomp_strm_multi_find ''lzo'' Find_alloc
            (\<lparr>max_strm = 2, avail_strm = 2, idle_strm = []\<rparr>, mem0 [Grant, Grant, Grant]))
       = Got (Some 0)
   \<and> strm_buffer (snd (snd (zcomp_strm_multi_find ''lzo'' Find_alloc
            (\<lparr>max_strm = 2, avail_strm = 2, idle_strm = []\<rparr>, mem0 [Grant, Grant, Grant])))) 0
       = Some (replicate (2 * PAGE_SIZE) 0)"
proof -
  let ?m3 = "mem0 [Grant, Grant, Grant]"
  let ?m5 = "mem0 [Grant, Grant, Grant, Grant, Grant]"
  let ?zs = "\<lparr>max_strm = 2, avail_strm = 2, idle_strm = []\<rparr>"
  let ?cmp = "\<lparr>name = ''lzo'', stream = Multi 1 \<lparr>max_strm = 2, avail_strm = 1, idle_strm = [2]\<rparr>\<rparr>"
  have a: "fst (zcomp_strm_alloc ''lzo'' {GFP_NOIO} ?m3) = Some 0"
    by (simp add: alloc_defs mem0_def)
  then have a': "zcomp_strm_alloc ''lzo'' {GFP_NOIO} ?m3
     = (Some 0, snd (zcomp_strm_alloc ''lzo'' {GFP_NOIO} ?m3))"
    by (simp add: prod_eq_iff)
  have c: "fst (zcomp_create False ''lzo'' 2 ?m5) = PTR (0, ?cmp)"
    by (simp add: eval_defs)
  then have c': "zcomp_create False ''lzo'' 2 ?m5 = (PTR (0, ?cmp), snd (zcomp_create False ''lzo'' 2 ?m5))"
    by (simp add: prod_eq_iff)
  have f: "fst (zcomp_strm_multi_find ''lzo'' Find_alloc (?zs, ?m3)) = Got (Some 0)"
    by (simp add: alloc_defs mem0_def)
  have f2: "fst (snd (zcomp_strm_multi_find ''lzo'' Find_alloc (?zs, ?m3))) = ?zs"
    by (simp add: alloc_defs mem0_def)
  have f': "zcomp_strm_multi_find ''lzo'' Find_alloc (?zs, ?m3)
     = (Got (Some 0), ?zs, snd (snd (zcomp_strm_multi_find ''lzo'' Find_alloc (?zs, ?m3))))"
    using f f2 by (simp add: prod_eq_iff)
  have 1: "strm_buffer (snd (zcomp_strm_alloc ''lzo'' {GFP_NOIO} ?m3)) 0 = Some (replicate (2 * PAGE_SIZE) 0)"
    using scratch_buffer_zeroed[where alg = "''lzo''" and flags = "{GFP_NOIO}" and m = ?m3 and z = 0
        and m' = "snd (zcomp_strm_alloc ''lzo'' {GFP_NOIO} ?m3)"] a' by blast
  have 2: "strm_buffer (snd (zcomp_create False ''lzo'' 2 ?m5)) 2 = Some (replicate (2 * PAGE_SIZE) 0)"
    using scratch_buffer_zeroed[where cfg = False and compress = "''lzo''" and n = 2 and m = ?m5
        and c = 0 and cmp = ?cmp and m' = "snd (zcomp_create False ''lzo'' 2 ?m5)"] c' by simp
  have 3: "strm_buffer (snd (snd (zcomp_strm_multi_find ''lzo'' Find_alloc (?zs, ?m3)))) 0
       = Some (replicate (2 * PAGE_SIZE) 0)"
    using scratch_buffer_zeroed[where alg = "''lzo''" and za = ?zs and m = ?m3 and z = 0
        and zb = ?zs and m' = "snd (snd (zcomp_strm_multi_find ''lzo'' Find_alloc (?zs, ?m3)))"] f'
    by blast
  from a c f 1 2 3 show ?thesis by blast
qed

text \<open>
  C9 at a concrete input: \<open>lzo\<close> followed by a newline, on a kernel without lz4.
\<close>

theorem newline_accepted_not_marked_witness:
  "''lzo'' \<in> set (backends False)
   \<and> find_backend False (''lzo'' @ [newline]) = Some ''lzo''
   \<and> fst (zcomp_create False (''lzo'' @ [newline]) 2 (mem0 [Grant, Grant, Grant, Grant, Grant]))
       = PTR (0, \<lparr>name = ''lzo'', stream = Multi 1 \<lparr>max_strm = 2, avail_strm = 1, idle_strm = [2]\<rparr>\<rparr>)
   \<and> zcomp_available_show False (''lzo'' @ [newline]) = ''lzo '' @ [newline]
   \<and> zcomp_available_show False ''lzo'' = ''[lzo] '' @ [newline]"
proof -
  have h: "''lzo'' \<in> set (backends False)" by (simp add: backends_def)
  have f: "fates (mem0 [Grant, Grant, Grant, Grant, Grant]) = Grant # Grant # Grant # Grant # Grant # []"
    by (simp add: mem0_def)
  have c: "fst (zcomp_create False (''lzo'' @ [newline]) 2 (mem0 [Grant, Grant, Grant, Grant, Grant]))
       = PTR (0, \<lparr>name = ''lzo'', stream = Multi 1 \<lparr>max_strm = 2, avail_strm = 1, idle_strm = [2]\<rparr>\<rparr>)"
    by (simp add: eval_defs)
  have s: "zcomp_available_show False (''lzo'' @ [newline]) = ''lzo '' @ [newline]"
    "zcomp_available_show False ''lzo'' = ''[lzo] '' @ [newline]"
    by (simp_all add: zcomp_available_show_def backends_def scnprintf_def PAGE_SIZE_def newline_def)
  from newline_accepted_not_marked[OF h, of "mem0 [Grant, Grant, Grant, Grant, Grant]" "[]" 2] h f c s
  show ?thesis by simp
qed

text \<open>
  C1 at a concrete input: the second caller's allocation is refused, it undoes its
  reservation and falls asleep; the first caller's release wakes it, and it returns with
  the released stream.
\<close>

theorem find_never_fails_witness:
  "kmem_ok (mem0 [Grant, Grant, Grant, Grant, Grant, Deny])
   \<and> boot False ''lzo'' 2 2 (mem0 [Grant, Grant, Grant, Grant, Grant, Deny]) \<noteq> None
   \<and> pcs (exec [Find 0, Find 0, Find 1, Find 1]
            (the (boot False ''lzo'' 2 2 (mem0 [Grant, Grant, Grant, Grant, Grant, Deny])))) ! 1 = Find_alloc
   \<and> pcs (exec ([Find 0, Find 0, Find 1, Find 1] @ [Find 1, Find 1, Find 1])
            (the (boot False ''lzo'' 2 2 (mem0 [Grant, Grant, Grant, Grant, Grant, Deny])))) ! 1 = Find_sleep
   \<and> pcs (the retry_pool) ! 1 = Got (Some 2)
   \<and> is_strm (mem (the retry_pool)) 2"
proof -
  let ?m = "mem0 [Grant, Grant, Grant, Grant, Grant, Deny]"
  let ?s0 = "the (boot False ''lzo'' 2 2 ?m)"
  let ?pre = "[Find 0, Find 0, Find 1, Find 1]"
  let ?evs = "[Find 0, Find 0, Find 1, Find 1, Find 1, Find 1, Find 1, Release 0, Find 1, Find 1]"
  have b: "boot False ''lzo'' 2 2 ?m = Some ?s0"
    using boot_retry by simp
  have r: "the retry_pool = exec ?evs ?s0"
    by (simp only: retry_pool_def the_map_option[OF boot_retry])
  have g: "pcs (the retry_pool) ! 1 = Got (Some 2)"
    by (simp add: retry_pool_def eval_defs)
  have p1: "pcs (exec ?pre ?s0) ! 1 = Find_alloc"
    by (simp add: eval_defs)
  have p2: "fst (zcomp_strm_alloc (cname (exec ?pre ?s0)) {GFP_NOIO, GFP_NORETRY, GFP_NOWARN}
                 (mem (exec ?pre ?s0))) = None"
    by (simp add: eval_defs)
  have p3: "idle_strm (pool (exec ?pre ?s0)) = []"
    by (simp add: eval_defs)
  have t: "(1::nat) < 2" by simp
  from find_never_fails[OF mem0_ok b t, of ?pre] p1 p2 p3
  have w1: "pcs (exec (?pre @ [Find 1, Find 1, Find 1]) ?s0) ! 1 = Find_sleep" by simp
  from find_never_fails[OF mem0_ok b t, of ?evs] g r
  have w2: "is_strm (mem (the retry_pool)) 2" by simp
  from w1 w2 g p1 boot_retry mem0_ok show ?thesis by blast
qed

text \<open>
  Without \<open>__GFP_ZERO\<close> the pages are not zeroed in this model, so the zero bytes above
  come from the flag that \<open>zcomp_strm_alloc\<close> adds.
\<close>

lemma get_free_pages_dirty:
  "pages (snd (get_free_pages {GFP_KERNEL} 1 (mem0 [Grant]))) 0 = Some (replicate (2 * PAGE_SIZE) 0xFF)"
  by (simp add: get_free_pages_def next_fate_def mem0_def)

section \<open>Names the lookup does not find\<close>

lemma zcomp_create_EINVAL_only:
  assumes "find_backend lz4 compress = Some b"
  shows "fst (zcomp_create lz4 compress n m) \<noteq> ERR_PTR (- EINVAL)"
  using assms
  by (auto simp: zcomp_create_def zcomp_strm_multi_create_def zcomp_strm_single_create_def
      Let_def EINVAL_def ENOMEM_def split: prod.splits option.splits sum.splits)

text \<open>
  Claim C8 as stated fails. The name \<open>lzo\<close> followed by a newline is not in the
  table, with or without lz4, yet \<open>zcomp_create\<close> accepts it: with its allocations
  granted it returns a \<open>zcomp\<close>, not \<open>-EINVAL\<close>.
\<close>

theorem zcomp_create_newline_counterexample:
  "''lzo'' @ [newline] \<notin> set (backends True)
   \<and> ''lzo'' @ [newline] \<notin> set (backends False)
   \<and> fst (zcomp_create False (''lzo'' @ [newline]) 4 (mem0 [Grant, Grant, Grant, Grant, Grant]))
       = PTR (0, \<lparr>name = ''lzo'', stream = Multi 1 \<lparr>max_strm = 4, avail_strm = 1, idle_strm = [2]\<rparr>\<rparr>)
   \<and> fst (zcomp_create False (''lzo'' @ [newline]) 4 (mem0 [Grant, Grant, Grant, Grant, Grant]))
       \<noteq> ERR_PTR (- EINVAL)"
  by (simp add: eval_defs)

text \<open>
  Claim C8, amended. For a name that is neither a registered name nor a registered name
  followed by a single newline, \<open>zcomp_create\<close> returns \<open>ERR_PTR(-EINVAL)\<close> and returns
  memory exactly as it was given: no allocation was made or even attempted, for any
  \<open>max_strm\<close>. These are the only names for which it returns \<open>-EINVAL\<close>, and
  \<open>-EINVAL\<close> differs from \<open>-ENOMEM\<close>.
\<close>

theorem zcomp_create_unsupported:
  "((\<forall>b \<in> set (backends lz4). compress \<noteq> b \<and> compress \<noteq> b @ [newline]) \<longrightarrow>
      zcomp_create lz4 compress n m = (ERR_PTR (- EINVAL), m))
   \<and> (fst (zcomp_create lz4 compress n m) = ERR_PTR (- EINVAL) \<longrightarrow>
      (\<forall>b \<in> set (backends lz4). compress \<noteq> b \<and> compress \<noteq> b @ [newline]))
   \<and> - EINVAL \<noteq> - ENOMEM"
proof (intro conjI impI)
  assume "\<forall>b \<in> set (backends lz4). compress \<noteq> b \<and> compress \<noteq> b @ [newline]"
  then have "find_backend lz4 compress = None"
    by (simp only: find_backend_None_iff)
  then show "zcomp_create lz4 compress n m = (ERR_PTR (- EINVAL), m)"
    by (simp add: zcomp_create_def)
next
  assume r: "fst (zcomp_create lz4 compress n m) = ERR_PTR (- EINVAL)"
  have "find_backend lz4 compress = None"
  proof (cases "find_backend lz4 compress")
    case None
    then show ?thesis .
  next
    case (Some b)
    from zcomp_create_EINVAL_only[OF Some, of n m] r show ?thesis by simp
  qed
  then show "\<forall>b \<in> set (backends lz4). compress \<noteq> b \<and> compress \<noteq> b @ [newline]"
    by (simp only: find_backend_None_iff)
next
  show "- EINVAL \<noteq> - ENOMEM" by (simp add: EINVAL_def ENOMEM_def)
qed

text \<open>
  C8 as amended, at a concrete input: the name \<open>unknown-algo\<close>.
\<close>

theorem zcomp_create_unsupported_witness:
  "backends True = [''lzo'', ''lz4'']
   \<and> ''unknown-algo'' \<noteq> ''lzo'' \<and> ''unknown-algo'' \<noteq> ''lzo'' @ [newline]
   \<and> ''unknown-algo'' \<noteq> ''lz4'' \<and> ''unknown-algo'' \<noteq> ''lz4'' @ [newline]
   \<and> zcomp_create True ''unknown-algo'' 4 (mem0 [Grant, Grant])
       = (ERR_PTR (- EINVAL), mem0 [Grant, Grant])
   \<and> fst (zcomp_create True ''unknown-algo'' 4 (mem0 [Grant, Grant])) = ERR_PTR (- EINVAL)"
proof -
  have b: "backends True = [''lzo'', ''lz4'']" by (simp add: backends_def)
  have h: "\<forall>b \<in> set (backends True). ''unknown-algo'' \<noteq> b \<and> ''unknown-algo'' \<noteq> b @ [newline]"
    by (simp add: backends_def)
  from zcomp_create_unsupported[of True "''unknown-algo''" 4 "mem0 [Grant, Grant]"] h b
  show ?thesis by auto
qed

section \<open>The capacity bound\<close>

lemma exec_Cons: "exec (e # evs) s = exec evs (exec1 e s)"
  by (simp add: exec_def)

lemma exec_append: "exec (evs @ evs') s = exec evs' (exec evs s)"
  by (simp add: exec_def)

lemma find_step_bound:
  "max_strm (pool (exec1 (Find t) s)) = max_strm (pool s)
   \<and> (avail_strm (pool (exec1 (Find t) s)) \<le> avail_strm (pool s)
      \<or> avail_strm (pool (exec1 (Find t) s)) \<le> max_strm (pool s))"
proof (cases "t < length (pcs s)")
  case False
  then show ?thesis by simp
next
  case True
  then show ?thesis
    by (cases "pcs s ! t") (auto split: list.splits prod.splits)
qed

lemma release_step_bound:
  "max_strm (pool (exec1 (Release t) s)) = max_strm (pool s)
   \<and> avail_strm (pool (exec1 (Release t) s)) \<le> avail_strm (pool s)"
  by (auto simp: zcomp_strm_multi_release_def split: pc.splits option.splits)

lemma other_step_bound:
  assumes "\<And>n. e \<noteq> Set_max n"
  shows "max_strm (pool (exec1 e s)) = max_strm (pool s)
   \<and> (avail_strm (pool (exec1 e s)) \<le> avail_strm (pool s)
      \<or> avail_strm (pool (exec1 e s)) \<le> max_strm (pool s))"
proof (cases e)
  case (Find t)
  then show ?thesis using find_step_bound[of t s] by simp
next
  case (Release t)
  then show ?thesis using release_step_bound[of t s] by simp
next
  case (Set_max n)
  with assms show ?thesis by blast
qed

lemma set_max_step:
  "max_strm (pool (exec1 (Set_max n) s)) = n
   \<and> pcs (exec1 (Set_max n) s) = pcs s
   \<and> int (length (idle_strm (pool (exec1 (Set_max n) s))))
       = int (length (idle_strm (pool s)))
         - min (int (length (idle_strm (pool s)))) (max 0 (avail_strm (pool s) - n))
   \<and> avail_strm (pool (exec1 (Set_max n) s))
       = avail_strm (pool s)
         - min (int (length (idle_strm (pool s)))) (max 0 (avail_strm (pool s) - n))"
proof -
  obtain zs' m' where l: "set_max_streams_loop n ((pool s)\<lparr>max_strm := n\<rparr>) (mem s) = (zs', m')"
    by (cases "set_max_streams_loop n ((pool s)\<lparr>max_strm := n\<rparr>) (mem s)")
  have mx: "max_strm zs' = n"
    using set_max_streams_loop_max[of n "(pool s)\<lparr>max_strm := n\<rparr>" "mem s"] l by simp
  from set_max_streams_loop_count[OF l] mx l show ?thesis
    by (simp add: zcomp_strm_multi_set_max_streams_def del: set_max_streams_loop.simps)
qed

lemma step_keeps_bound:
  assumes "pool_inv s" "\<not> lowers e s" "avail_strm (pool s) \<le> max_strm (pool s)"
  shows "avail_strm (pool (exec1 e s)) \<le> max_strm (pool (exec1 e s))"
proof (cases e)
  case (Find t)
  then show ?thesis using find_step_bound[of t s] assms(3) by auto
next
  case (Release t)
  then show ?thesis using release_step_bound[of t s] assms(3) by auto
next
  case (Set_max n)
  have acc: "avail_strm (pool s) = int (length (idle_strm (pool s))) + in_use s"
    using assms(1) by (simp add: pool_inv_def in_use_def)
  from assms(2) Set_max have "in_use s \<le> n" by simp
  with acc set_max_step[of n s] Set_max show ?thesis
    by (auto simp: min_def max_def split: if_splits)
qed

lemma lowering_breaks_bound:
  assumes "pool_inv s" "lowers e s"
  shows "\<not> avail_strm (pool (exec1 e s)) \<le> max_strm (pool (exec1 e s))
    \<and> idle_strm (pool (exec1 e s)) = []
    \<and> avail_strm (pool (exec1 e s)) = in_use s"
proof -
  from assms(2) obtain n where e: "e = Set_max n" and n: "n < in_use s"
    by (cases e) auto
  have acc: "avail_strm (pool s) = int (length (idle_strm (pool s))) + in_use s"
    using assms(1) by (simp add: pool_inv_def in_use_def)
  from acc n set_max_step[of n s]
  have "int (length (idle_strm (pool (exec1 (Set_max n) s)))) = 0"
    "avail_strm (pool (exec1 (Set_max n) s)) = in_use s"
    "max_strm (pool (exec1 (Set_max n) s)) = n"
    by (auto simp: min_def max_def split: if_splits)
  with e n show ?thesis by auto
qed

lemma run_keeps_bound:
  assumes "pool_inv s" "no_lowering evs s" "avail_strm (pool s) \<le> max_strm (pool s)"
  shows "avail_strm (pool (exec evs s)) \<le> max_strm (pool (exec evs s))"
  using assms
proof (induction evs arbitrary: s)
  case Nil
  then show ?case by (simp add: exec_def)
next
  case (Cons e evs)
  from Cons.prems have "pool_inv (exec1 e s)" "no_lowering evs (exec1 e s)"
    "avail_strm (pool (exec1 e s)) \<le> max_strm (pool (exec1 e s))"
    by (auto simp: pool_inv_exec1 step_keeps_bound)
  from Cons.IH[OF this] show ?case by (simp add: exec_Cons)
qed

text \<open>
  Claim C4, amended. Take a pool made by \<open>zcomp_create\<close> and any sequence of steps,
  at rest or not.
  \<^item> If no resize in the run asks for fewer streams than are in use at that moment,
    \<open>avail_strm \<le> max_strm\<close> holds at the end.
  \<^item> Wherever \<open>avail_strm \<le> max_strm\<close> holds, it keeps holding along every continuation
    without such a resize.
  \<^item> A resize that asks for fewer streams than are in use breaks it: afterwards the
    idle list is empty and \<open>avail_strm\<close> is the number of streams in use, above the new
    limit.
  \<^item> A step that is not a resize leaves \<open>max_strm\<close> alone and either does not raise
    \<open>avail_strm\<close> or leaves it within the limit, so an excess never grows.
  \<^item> In every state \<open>avail_strm\<close> is the number of idle streams plus the streams in
    use; every idle stream and every stream a caller owns is a stream in memory; no
    stream is both idle and owned; no stream is idle twice or owned twice.
\<close>

theorem pool_invariant:
  assumes "kmem_ok m" and "boot lz4 compress n k m = Some s0"
  shows "(no_lowering evs s0 \<longrightarrow>
            avail_strm (pool (exec evs s0)) \<le> max_strm (pool (exec evs s0)))
    \<and> (\<forall>evs'. avail_strm (pool (exec evs s0)) \<le> max_strm (pool (exec evs s0))
               \<and> no_lowering evs' (exec evs s0) \<longrightarrow>
          avail_strm (pool (exec (evs @ evs') s0)) \<le> max_strm (pool (exec (evs @ evs') s0)))
    \<and> (\<forall>e. lowers e (exec evs s0) \<longrightarrow>
          \<not> avail_strm (pool (exec (evs @ [e]) s0)) \<le> max_strm (pool (exec (evs @ [e]) s0))
          \<and> idle_strm (pool (exec (evs @ [e]) s0)) = []
          \<and> avail_strm (pool (exec (evs @ [e]) s0)) = in_use (exec evs s0))
    \<and> (\<forall>e. (\<forall>n'. e \<noteq> Set_max n') \<longrightarrow>
          max_strm (pool (exec (evs @ [e]) s0)) = max_strm (pool (exec evs s0))
          \<and> (avail_strm (pool (exec (evs @ [e]) s0)) \<le> avail_strm (pool (exec evs s0))
             \<or> avail_strm (pool (exec (evs @ [e]) s0)) \<le> max_strm (pool (exec evs s0))))
    \<and> (avail_strm (pool (exec evs s0)) \<le> max_strm (pool (exec evs s0))
         \<or> idle_strm (pool (exec evs s0)) = []
           \<and> avail_strm (pool (exec evs s0)) = in_use (exec evs s0))
    \<and> avail_strm (pool (exec evs s0))
         = int (length (idle_strm (pool (exec evs s0)))) + in_use (exec evs s0)
    \<and> list_all (is_strm (mem (exec evs s0))) (idle_strm (pool (exec evs s0)))
    \<and> list_all (is_strm (mem (exec evs s0))) (checked_out (pcs (exec evs s0)))
    \<and> set (idle_strm (pool (exec evs s0))) \<inter> set (checked_out (pcs (exec evs s0))) = {}
    \<and> distinct (idle_strm (pool (exec evs s0)))
    \<and> distinct (checked_out (pcs (exec evs s0)))"
proof -
  let ?s = "exec evs s0"
  from boot_Some[OF assms] have inv0: "pool_inv s0" and b0: "avail_strm (pool s0) \<le> max_strm (pool s0)"
    by auto
  have inv: "pool_inv ?s" using inv0 by (rule pool_inv_exec)
  have 1: "avail_strm (pool ?s) \<le> max_strm (pool ?s)" if "no_lowering evs s0"
    using run_keeps_bound[OF inv0 that b0] .
  have 2: "avail_strm (pool (exec (evs @ evs') s0)) \<le> max_strm (pool (exec (evs @ evs') s0))"
    if "avail_strm (pool ?s) \<le> max_strm (pool ?s)" "no_lowering evs' ?s" for evs'
    using run_keeps_bound[OF inv that(2,1)] by (simp add: exec_append)
  have 3: "\<not> avail_strm (pool (exec (evs @ [e]) s0)) \<le> max_strm (pool (exec (evs @ [e]) s0))
          \<and> idle_strm (pool (exec (evs @ [e]) s0)) = []
          \<and> avail_strm (pool (exec (evs @ [e]) s0)) = in_use ?s"
    if "lowers e ?s" for e
    using lowering_breaks_bound[OF inv that] by (simp add: exec_snoc)
  have 4: "max_strm (pool (exec (evs @ [e]) s0)) = max_strm (pool ?s)
          \<and> (avail_strm (pool (exec (evs @ [e]) s0)) \<le> avail_strm (pool ?s)
             \<or> avail_strm (pool (exec (evs @ [e]) s0)) \<le> max_strm (pool ?s))"
    if "\<forall>n'. e \<noteq> Set_max n'" for e
    using other_step_bound[of e ?s] that by (simp add: exec_snoc)
  have 5: "avail_strm (pool ?s) \<le> max_strm (pool ?s)
         \<or> idle_strm (pool ?s) = [] \<and> avail_strm (pool ?s) = in_use ?s"
    using inv by (auto simp: pool_inv_def in_use_def)
  have 6: "avail_strm (pool ?s) = int (length (idle_strm (pool ?s))) + in_use ?s
    \<and> list_all (is_strm (mem ?s)) (idle_strm (pool ?s))
    \<and> list_all (is_strm (mem ?s)) (checked_out (pcs ?s))
    \<and> set (idle_strm (pool ?s)) \<inter> set (checked_out (pcs ?s)) = {}
    \<and> distinct (idle_strm (pool ?s))
    \<and> distinct (checked_out (pcs ?s))"
    using inv by (auto simp: pool_inv_def in_use_def)
  from 1 2 3 4 5 6 show ?thesis by blast
qed

lemma find_only_no_lowering: "no_lowering (map Find ts) s"
  by (induction ts arbitrary: s) simp_all

text \<open>
  C4 as amended, at the full pool: the run that fills it has no lowering resize and ends
  within the limit; so does a continuation with a resize to three; a resize to two
  lowers the limit below the three streams in use and leaves \<open>avail_strm\<close> at 3.
\<close>

theorem pool_invariant_witness:
  "kmem_ok (mem0 (replicate 11 Grant))
   \<and> boot True ''lzo'' 3 3 (mem0 (replicate 11 Grant)) \<noteq> None
   \<and> no_lowering [Find 0, Find 0, Find 1, Find 1, Find 1, Find 2, Find 2, Find 2]
        (the (boot True ''lzo'' 3 3 (mem0 (replicate 11 Grant))))
   \<and> avail_strm (pool (the full_pool)) \<le> max_strm (pool (the full_pool))
   \<and> no_lowering [Set_max 3, Release 0, Find 0, Find 0] (the full_pool)
   \<and> avail_strm (pool (exec [Set_max 3, Release 0, Find 0, Find 0] (the full_pool)))
       \<le> max_strm (pool (exec [Set_max 3, Release 0, Find 0, Find 0] (the full_pool)))
   \<and> lowers (Set_max 2) (the full_pool)
   \<and> \<not> avail_strm (pool (exec1 (Set_max 2) (the full_pool)))
         \<le> max_strm (pool (exec1 (Set_max 2) (the full_pool)))
   \<and> idle_strm (pool (exec1 (Set_max 2) (the full_pool))) = []
   \<and> avail_strm (pool (exec1 (Set_max 2) (the full_pool))) = in_use (the full_pool)
   \<and> avail_strm (pool (exec1 (Release 0) (the full_pool))) \<le> avail_strm (pool (the full_pool))
   \<and> list_all (is_strm (mem (the full_pool))) [2, 5, 8]"
proof -
  let ?m = "mem0 (replicate 11 Grant)"
  let ?E = "[Find 0, Find 0, Find 1, Find 1, Find 1, Find 2, Find 2, Find 2]"
  define s0 where "s0 = the (boot True ''lzo'' 3 3 ?m)"
  define s where "s = exec ?E s0"
  have b: "boot True ''lzo'' 3 3 ?m = Some s0"
    using boot_full by (simp add: s0_def)
  have fp: "the full_pool = s"
    by (simp only: full_pool_def the_map_option[OF boot_full] s_def s0_def)
  have p: "pool s = \<lparr>max_strm = 3, avail_strm = 3, idle_strm = []\<rparr>"
    and c: "pcs s = [Got (Some 2), Got (Some 5), Got (Some 8)]"
    using full_pool_eval fp by simp_all
  note T = pool_invariant[OF mem0_ok b, of ?E, folded s_def]
  have n0: "no_lowering ?E s0"
    using find_only_no_lowering[of "[0, 0, 1, 1, 1, 2, 2, 2]" s0] by simp
  have w1: "avail_strm (pool s) \<le> max_strm (pool s)"
    using T n0 by blast
  have n1: "no_lowering [Set_max 3, Release 0, Find 0, Find 0] s"
    using p c
    by (simp add: in_use_def zcomp_strm_multi_set_max_streams_def zcomp_strm_multi_release_def)
  have w2: "avail_strm (pool (exec (?E @ [Set_max 3, Release 0, Find 0, Find 0]) s0))
       \<le> max_strm (pool (exec (?E @ [Set_max 3, Release 0, Find 0, Find 0]) s0))"
    using T w1 n1 by blast
  have lo: "lowers (Set_max 2) s"
    using c by (simp add: in_use_def)
  have w3: "\<not> avail_strm (pool (exec (?E @ [Set_max 2]) s0)) \<le> max_strm (pool (exec (?E @ [Set_max 2]) s0))
     \<and> idle_strm (pool (exec (?E @ [Set_max 2]) s0)) = []
     \<and> avail_strm (pool (exec (?E @ [Set_max 2]) s0)) = in_use s"
    using T lo by blast
  have w4: "avail_strm (pool (exec (?E @ [Release 0]) s0)) \<le> avail_strm (pool s)
      \<or> avail_strm (pool (exec (?E @ [Release 0]) s0)) \<le> max_strm (pool s)"
    using T by blast
  have w4': "avail_strm (pool (exec (?E @ [Release 0]) s0)) \<le> avail_strm (pool s)"
    using w4 p by auto
  have w5: "list_all (is_strm (mem s)) [2, 5, 8]"
    using T c by (simp add: checked_out_def)
  have e1: "\<And>es. exec (?E @ es) s0 = exec es s"
    unfolding s_def by (rule exec_append)
  have e2: "\<And>e. exec [e] s = exec1 e s" by (simp add: exec_def)
  from n0 w1 n1 w2 lo w3 w4' w5 boot_full mem0_ok show ?thesis
    unfolding e1 e2 fp s0_def[symmetric] by blast
qed

section \<open>What a resize frees\<close>












lemma boot_small: "boot False ''lzo'' 2 2 (mem0 [Grant, Grant, Grant, Grant, Grant]) \<noteq> None"
  by (simp add: eval_defs)



end
